theory Spec2Isabelle
  imports Main
begin

section \<open>Strings of the source language\<close>

text \<open>
  The TypeScript sources work on JavaScript strings. A source text is modelled as a
  \<^typ>\<open>string\<close>, one \<^typ>\<open>char\<close> per code unit; the program only ever compares code
  units against the ASCII characters \<open><\<close>, \<open>>\<close>, \<open>/\<close>, \<open>&\<close>, newline and the letters.
\<close>

definition charAt :: "string \<Rightarrow> nat \<Rightarrow> char option" where
  \<comment> \<open>\<open>source[i]\<close>: \<open>undefined\<close> (here \<open>None\<close>) when \<open>i\<close> is out of range.\<close>
  "charAt s i = (if i < length s then Some (s ! i) else None)"

definition slice :: "string \<Rightarrow> nat \<Rightarrow> nat \<Rightarrow> string" where
  \<comment> \<open>\<open>source.slice(a, b)\<close> for non-negative \<open>a\<close>, \<open>b\<close>: both ends are clamped to the length.\<close>
  "slice s a b = take (b - a) (drop a s)"

section \<open>Position calculator (errors.ts)\<close>

function calculatePositionLoop ::
  "string \<Rightarrow> nat \<Rightarrow> nat \<Rightarrow> nat \<Rightarrow> nat \<Rightarrow> nat \<times> nat" where
  "calculatePositionLoop source index i line column =
     (if i < index \<and> i < length source then
        (if source ! i = CHR 0x0A
         then calculatePositionLoop source index (i + 1) (line + 1) 1
         else calculatePositionLoop source index (i + 1) line (column + 1))
      else (line, column))"
  by pat_completeness auto
termination
  by (relation "measure (\<lambda>(source, index, i, line, column). length source - i)") auto

declare calculatePositionLoop.simps [simp del]

definition calculatePosition :: "string \<Rightarrow> nat \<Rightarrow> nat \<times> nat" where
  \<comment> \<open>returns \<open>(line, column)\<close>, both 1-based\<close>
  "calculatePosition source index = calculatePositionLoop source index 0 1 1"

section \<open>Error taxonomy (errors.ts)\<close>

text \<open>
  Every subclass of \<open>TamlParseError\<close> is a constructor; the last four fields of each are
  \<open>position\<close>, \<open>line\<close>, \<open>column\<close> and \<open>source\<close> of the base class (the optional \<open>context\<close>
  and \<open>expected\<close> come after them, as in the constructors of the source). The message
  of an error is a function of these fields and is not stored.
\<close>

datatype TamlParseError =
    InvalidTagError string nat nat nat string
  | UnclosedTagError string nat nat nat string
  | MismatchedTagError string string nat nat nat string
  | MalformedTagError string nat nat nat string
  | UnexpectedEndOfInputError nat nat nat string "string option"
  | UnexpectedCharacterError string nat nat nat string "string option"

fun err_position :: "TamlParseError \<Rightarrow> nat" where
  "err_position (InvalidTagError n p l c s) = p"
| "err_position (UnclosedTagError n p l c s) = p"
| "err_position (MismatchedTagError e a p l c s) = p"
| "err_position (MalformedTagError t p l c s) = p"
| "err_position (UnexpectedEndOfInputError p l c s x) = p"
| "err_position (UnexpectedCharacterError ch p l c s x) = p"

fun err_line :: "TamlParseError \<Rightarrow> nat" where
  "err_line (InvalidTagError n p l c s) = l"
| "err_line (UnclosedTagError n p l c s) = l"
| "err_line (MismatchedTagError e a p l c s) = l"
| "err_line (MalformedTagError t p l c s) = l"
| "err_line (UnexpectedEndOfInputError p l c s x) = l"
| "err_line (UnexpectedCharacterError ch p l c s x) = l"

fun err_column :: "TamlParseError \<Rightarrow> nat" where
  "err_column (InvalidTagError n p l c s) = c"
| "err_column (UnclosedTagError n p l c s) = c"
| "err_column (MismatchedTagError e a p l c s) = c"
| "err_column (MalformedTagError t p l c s) = c"
| "err_column (UnexpectedEndOfInputError p l c s x) = c"
| "err_column (UnexpectedCharacterError ch p l c s x) = c"

text \<open>
  The plain \<open>Error\<close> objects the parser throws with \<open>new Error(...)\<close>; they are not
  instances of \<open>TamlParseError\<close>. \<open>MaxDepthExceeded m\<close> stands for the message
  \<open>Maximum nesting depth of m exceeded\<close>.
\<close>

datatype PlainError = MaxDepthExceeded nat | ExpectedOpenTagToken | ExpectedTextToken

datatype Thrown = isTamlParseError: Positioned TamlParseError | Plain PlainError

section \<open>Tokens (tokenizer.ts)\<close>

datatype TamlToken =
    isOpenTagToken: OpenTagToken (tok_tagName: string) (tok_value: string)
      (tok_start: nat) (tok_end: nat) (tok_line: nat) (tok_column: nat)
  | isCloseTagToken: CloseTagToken (tok_tagName: string) (tok_value: string)
      (tok_start: nat) (tok_end: nat) (tok_line: nat) (tok_column: nat)
  | isTextToken: TextToken (tok_content: string) (tok_value: string)
      (tok_start: nat) (tok_end: nat) (tok_line: nat) (tok_column: nat)
  | isEofToken: EofToken (tok_value: string)
      (tok_start: nat) (tok_end: nat) (tok_line: nat) (tok_column: nat)

section \<open>Tag vocabulary\<close>

definition validTags :: "string list" where
  "validTags =
    [''black'', ''red'', ''green'', ''yellow'', ''blue'', ''magenta'', ''cyan'', ''white'',
     ''brightBlack'', ''brightRed'', ''brightGreen'', ''brightYellow'', ''brightBlue'',
     ''brightMagenta'', ''brightCyan'', ''brightWhite'',
     ''bgBlack'', ''bgRed'', ''bgGreen'', ''bgYellow'', ''bgBlue'', ''bgMagenta'',
     ''bgCyan'', ''bgWhite'',
     ''bgBrightBlack'', ''bgBrightRed'', ''bgBrightGreen'', ''bgBrightYellow'',
     ''bgBrightBlue'', ''bgBrightMagenta'', ''bgBrightCyan'', ''bgBrightWhite'',
     ''bold'', ''dim'', ''italic'', ''underline'', ''strikethrough'']"

definition isValidTag :: "string \<Rightarrow> bool" where
  \<comment> \<open>Modelled from the spec: \<open>isValidTag\<close> is imported from the package \<open>@taml/ast\<close>,
      which is not among the sources; it is the membership test in the closed set of
      37 tag names, listed in the README and in the validator tests.\<close>
  "isValidTag t = (t \<in> set validTags)"

section \<open>Tokenizer (tokenizer.ts)\<close>

record TokenizerState =
  position :: nat
  tokens :: "TamlToken list"

function scanText :: "string \<Rightarrow> nat \<Rightarrow> string \<Rightarrow> nat \<times> string" where
  \<comment> \<open>the \<open>while\<close> loop of \<open>tokenizeText\<close>; returns the new position and \<open>content\<close>\<close>
  "scanText source pos content =
     (if pos < length source \<and> source ! pos \<noteq> CHR ''<'' then
        (if source ! pos = CHR ''&'' \<and> slice source pos (pos + 4) = ''&lt;''
         then scanText source (pos + 4) (content @ ''<'')
         else if source ! pos = CHR ''&'' \<and> slice source pos (pos + 5) = ''&amp;''
         then scanText source (pos + 5) (content @ ''&'')
         else scanText source (pos + 1) (content @ [source ! pos]))
      else (pos, content))"
  by pat_completeness auto
termination
  by (relation "measure (\<lambda>(source, pos, content). length source - pos)") auto

declare scanText.simps [simp del]

definition tokenizeText :: "string \<Rightarrow> TokenizerState \<Rightarrow> TokenizerState" where
  "tokenizeText source st =
     (let start = position st;
          startPos = calculatePosition source start;
          (end, content) = scanText source start [];
          val = slice source start end;
          token = TextToken content val start end (fst startPos) (snd startPos)
      in st\<lparr>position := end, tokens := tokens st @ [token]\<rparr>)"

function scanTagName :: "string \<Rightarrow> nat \<Rightarrow> nat" where
  \<comment> \<open>the \<open>while\<close> loop of \<open>tokenizeTag\<close>; its third conjunct \<open>this.source[this.position]\<close>
      is the truthiness of a one-character string, which holds of every character in range\<close>
  "scanTagName source pos =
     (if pos < length source \<and> source ! pos \<noteq> CHR ''>''
      then scanTagName source (pos + 1) else pos)"
  by pat_completeness auto
termination
  by (relation "measure (\<lambda>(source, pos). length source - pos)") auto

declare scanTagName.simps [simp del]

definition isLetter :: "char \<Rightarrow> bool" where
  "isLetter c = (let n = (of_char c :: nat) in (65 \<le> n \<and> n \<le> 90) \<or> (97 \<le> n \<and> n \<le> 122))"

definition onlyLetters :: "string \<Rightarrow> bool" where
  \<comment> \<open>the test \<open>/^[a-zA-Z]+$/\<close>\<close>
  "onlyLetters s = (s \<noteq> [] \<and> list_all isLetter s)"

definition tokenizeTag :: "string \<Rightarrow> TokenizerState \<Rightarrow> Thrown + TokenizerState" where
  "tokenizeTag source st =
     (let start = position st;
          startPos = calculatePosition source start
      in if charAt source start \<noteq> Some CHR ''<'' then
           Inl (Positioned (MalformedTagError
                  (case charAt source start of Some c \<Rightarrow> [c] | None \<Rightarrow> [])
                  start (fst startPos) (snd startPos) source))
         else
           let isClosing = (charAt source (start + 1) = Some CHR ''/'');
               tagNameStart = (if isClosing then start + 2 else start + 1);
               pos = scanTagName source tagNameStart;
               name = slice source tagNameStart pos
           in if name = [] then
                Inl (Positioned (MalformedTagError (slice source start (pos + 1))
                       start (fst startPos) (snd startPos) source))
              else if \<not> onlyLetters name then
                Inl (Positioned (MalformedTagError (slice source start (pos + 1))
                       start (fst startPos) (snd startPos) source))
              else if pos \<ge> length source \<or> charAt source pos \<noteq> Some CHR ''>'' then
                Inl (Positioned (UnexpectedEndOfInputError
                       pos (fst startPos) (snd startPos) source (Some ''parsing tag'')))
              else
                let end = pos + 1;
                    val = slice source start end
                in if \<not> isValidTag name then
                     Inl (Positioned (InvalidTagError name
                            start (fst startPos) (snd startPos) source))
                   else
                     let token =
                           (if isClosing
                            then CloseTagToken name val start end (fst startPos) (snd startPos)
                            else OpenTagToken name val start end (fst startPos) (snd startPos))
                     in Inr (st\<lparr>position := end, tokens := tokens st @ [token]\<rparr>))"

definition tokenizeNext :: "string \<Rightarrow> TokenizerState \<Rightarrow> Thrown + TokenizerState" where
  "tokenizeNext source st =
     (if position st \<ge> length source then Inr st
      else if source ! position st = CHR ''<'' then tokenizeTag source st
      else Inr (tokenizeText source st))"

text \<open>
  The main loop of \<open>tokenize\<close> runs while \<open>position < source.length\<close>. It terminates
  because every successful \<open>tokenizeNext\<close> moves the position forward, which the next
  three lemmas establish for the two inner loops and for \<open>tokenizeNext\<close>.
\<close>

lemma scanText_mono: "pos \<le> fst (scanText source pos acc)"
proof (induction source pos acc rule: scanText.induct)
  case (1 source pos content)
  show ?case
    apply (subst scanText.simps)
    using 1 by (auto simp: Let_def)
qed

lemma scanText_progress:
  assumes "pos < length source" "source ! pos \<noteq> CHR ''<''"
  shows "pos < fst (scanText source pos acc)"
proof -
  have "scanText source pos acc = scanText source (pos + 4) (acc @ ''<'')
      \<or> scanText source pos acc = scanText source (pos + 5) (acc @ ''&'')
      \<or> scanText source pos acc = scanText source (pos + 1) (acc @ [source ! pos])"
    using assms scanText.simps[of source pos acc] by auto
  moreover have "pos + 4 \<le> fst (scanText source (pos + 4) (acc @ ''<''))"
    and "pos + 5 \<le> fst (scanText source (pos + 5) (acc @ ''&''))"
    and "pos + 1 \<le> fst (scanText source (pos + 1) (acc @ [source ! pos]))"
    by (rule scanText_mono)+
  ultimately show ?thesis by auto
qed

lemma scanTagName_mono: "pos \<le> scanTagName source pos"
proof (induction source pos rule: scanTagName.induct)
  case (1 source pos)
  show ?case
    apply (subst scanTagName.simps)
    using 1 by auto
qed

lemma tokenizeNext_progress:
  "position st < length source \<Longrightarrow> tokenizeNext source st = Inr st' \<Longrightarrow> position st < position st'"
  using scanText_progress[of "position st" source "[]"] scanTagName_mono[of "position st + 1" source]
    scanTagName_mono[of "position st + 2" source]
  by (auto simp: tokenizeNext_def tokenizeText_def tokenizeTag_def Let_def split: if_splits prod.splits)

function tokenizeLoop :: "string \<Rightarrow> TokenizerState \<Rightarrow> Thrown + TokenizerState" where
  "tokenizeLoop source st =
     (if position st < length source then
        (case tokenizeNext source st of
           Inl e \<Rightarrow> Inl e
         | Inr st' \<Rightarrow> tokenizeLoop source st')
      else Inr st)"
  by pat_completeness auto
termination
  apply (relation "measure (\<lambda>(source, st). length source - position st)") 
   apply simp
  apply (auto dest: tokenizeNext_progress intro: diff_less_mono2)
  done

definition tokenize :: "string \<Rightarrow> Thrown + TamlToken list" where
  "tokenize source =
     (case tokenizeLoop source \<lparr>position = 0, tokens = []\<rparr> of
        Inl e \<Rightarrow> Inl e
      | Inr st \<Rightarrow>
          (let p = calculatePosition source (position st)
           in Inr (tokens st @ [EofToken [] (position st) (position st) (fst p) (snd p)])))"


declare tokenizeLoop.simps [simp del]

section \<open>Tree nodes\<close>

text \<open>
  The node types and their constructors \<open>createDocument\<close>, \<open>createElement\<close> and
  \<open>createText\<close> are imported from the package \<open>@taml/ast\<close>. A node is a tagged union
  of a document (children, start, end), an element (tag name, children, start, end) and
  a text (content, start, end).
\<close>

datatype TamlNode =
    isDocumentNode: DocumentNode (node_children: "TamlNode list") (node_start: nat) (node_end: nat)
  | isElementNode: ElementNode (node_tagName: string) (node_children: "TamlNode list")
      (node_start: nat) (node_end: nat)
  | isTextNode: TextNode (node_content: string) (node_start: nat) (node_end: nat)

definition createDocument :: "TamlNode list \<Rightarrow> nat \<Rightarrow> nat \<Rightarrow> TamlNode" where
  \<comment> \<open>Modelled from the spec: \<open>createDocument\<close> of \<open>@taml/ast\<close> is not among the sources;
      it makes a document node from ordered children plus span.\<close>
  "createDocument cs s e = DocumentNode cs s e"

definition createElement :: "string \<Rightarrow> TamlNode list \<Rightarrow> nat \<Rightarrow> nat \<Rightarrow> TamlNode" where
  \<comment> \<open>Modelled from the spec: \<open>createElement\<close> of \<open>@taml/ast\<close> is not among the sources;
      it makes an element node from tag name, ordered children and span.\<close>
  "createElement t cs s e = ElementNode t cs s e"

definition createText :: "string \<Rightarrow> nat \<Rightarrow> nat \<Rightarrow> TamlNode" where
  \<comment> \<open>Modelled from the spec: \<open>createText\<close> of \<open>@taml/ast\<close> is not among the sources;
      it makes a text node from content and span.\<close>
  "createText c s e = TextNode c s e"

section \<open>Tree builder (parser.ts)\<close>

text \<open>
  \<open>ParseContext\<close> is the mutable context the parser threads through its methods; every
  method of the model takes the context and returns the updated one. Its \<open>source\<close> field
  is never read (the methods use \<open>this.source\<close>), so the source text is a separate
  argument. \<open>tagStack.push\<close> appends at the end and \<open>tagStack.pop\<close> removes the last
  entry. A \<open>throw\<close> is a result \<open>Inl\<close>. The \<open>while\<close> loop of \<open>parseNodesWithDepth\<close> is
  \<open>parseNodesLoop\<close>, with the array \<open>nodes\<close> as its last argument.
\<close>

record ParseContext =
  ctx_tokens :: "TamlToken list"
  ctx_position :: nat
  tagStack :: "(string \<times> TamlToken) list"

record ParseOptions =
  opt_includePositions :: bool
  opt_maxDepth :: nat

definition parseText :: "ParseContext \<Rightarrow> Thrown + (TamlNode \<times> ParseContext)" where
  "parseText ctx =
     (if ctx_position ctx < length (ctx_tokens ctx)
         \<and> isTextToken (ctx_tokens ctx ! ctx_position ctx) then
        (let token = ctx_tokens ctx ! ctx_position ctx
         in Inr (createText (tok_content token) (tok_start token) (tok_end token),
                 ctx\<lparr>ctx_position := ctx_position ctx + 1\<rparr>))
      else Inl (Plain ExpectedTextToken))"

function parseNodesWithDepth ::
    "string \<Rightarrow> ParseContext \<Rightarrow> nat \<Rightarrow> nat \<Rightarrow> Thrown + (TamlNode list \<times> ParseContext)"
  and parseNodesLoop ::
    "string \<Rightarrow> ParseContext \<Rightarrow> nat \<Rightarrow> nat \<Rightarrow> TamlNode list
       \<Rightarrow> Thrown + (TamlNode list \<times> ParseContext)"
  and parseElementWithDepth ::
    "string \<Rightarrow> ParseContext \<Rightarrow> nat \<Rightarrow> nat \<Rightarrow> Thrown + (TamlNode \<times> ParseContext)"
where
  "parseNodesWithDepth source ctx currentDepth maxDepth =
     (if currentDepth > maxDepth then Inl (Plain (MaxDepthExceeded maxDepth))
      else parseNodesLoop source ctx currentDepth maxDepth [])"
| "parseNodesLoop source ctx currentDepth maxDepth nodes =
     (if ctx_position ctx < length (ctx_tokens ctx) then
        (let token = ctx_tokens ctx ! ctx_position ctx
         in if isEofToken token then Inr (nodes, ctx)
            else if isCloseTagToken token then Inr (nodes, ctx)
            else if isOpenTagToken token then
              (case parseElementWithDepth source ctx currentDepth maxDepth of
                 Inl e \<Rightarrow> Inl e
               | Inr (element, ctx') \<Rightarrow>
                   parseNodesLoop source ctx' currentDepth maxDepth (nodes @ [element]))
            else if isTextToken token then
              (case parseText ctx of
                 Inl e \<Rightarrow> Inl e
               | Inr (text, ctx') \<Rightarrow>
                   parseNodesLoop source ctx' currentDepth maxDepth (nodes @ [text]))
            else
              parseNodesLoop source (ctx\<lparr>ctx_position := ctx_position ctx + 1\<rparr>)
                currentDepth maxDepth nodes)
      else Inr (nodes, ctx))"
| "parseElementWithDepth source ctx currentDepth maxDepth =
     (if \<not> (ctx_position ctx < length (ctx_tokens ctx)
             \<and> isOpenTagToken (ctx_tokens ctx ! ctx_position ctx))
      then Inl (Plain ExpectedOpenTagToken)
      else
        (let openToken = ctx_tokens ctx ! ctx_position ctx;
             ctx1 = ctx\<lparr>ctx_position := ctx_position ctx + 1,
                        tagStack := tagStack ctx @ [(tok_tagName openToken, openToken)]\<rparr>
         in case parseNodesWithDepth source ctx1 (currentDepth + 1) maxDepth of
              Inl e \<Rightarrow> Inl e
            | Inr (children, ctx2) \<Rightarrow>
                if ctx_position ctx2 \<ge> length (ctx_tokens ctx2) then
                  Inl (Positioned (UnclosedTagError (tok_tagName openToken)
                         (tok_start openToken) (tok_line openToken) (tok_column openToken) source))
                else
                  (let closeToken = ctx_tokens ctx2 ! ctx_position ctx2
                   in if \<not> isCloseTagToken closeToken then
                        Inl (Positioned (UnclosedTagError (tok_tagName openToken)
                               (tok_start openToken) (tok_line openToken)
                               (tok_column openToken) source))
                      else if tok_tagName closeToken \<noteq> tok_tagName openToken then
                        Inl (Positioned (MismatchedTagError (tok_tagName openToken)
                               (tok_tagName closeToken) (tok_start closeToken)
                               (tok_line closeToken) (tok_column closeToken) source))
                      else
                        Inr (createElement (tok_tagName openToken) children
                               (tok_start openToken) (tok_end closeToken),
                             ctx2\<lparr>ctx_position := ctx_position ctx2 + 1,
                                   tagStack := butlast (tagStack ctx2)\<rparr>))))"
  by pat_completeness auto


text \<open>
  The three methods call each other, and the loop of \<open>parseNodesWithDepth\<close> continues
  from the context an element left behind. Termination rests on the fact that a
  successful \<open>parseElementWithDepth\<close> or \<open>parseText\<close> leaves the token array alone and
  moves the position forward.
\<close>

lemma token_kind_text:
  "\<not> isEofToken t \<Longrightarrow> \<not> isCloseTagToken t \<Longrightarrow> \<not> isOpenTagToken t \<Longrightarrow> isTextToken t"
  by (cases t) auto

lemma parseText_progress:
  "parseText ctx = Inr (n, ctx') \<Longrightarrow>
     ctx_tokens ctx' = ctx_tokens ctx \<and> ctx_position ctx < ctx_position ctx'"
  by (auto simp: parseText_def Let_def split: if_splits)

lemma parse_progress_partial:
  "parseNodesWithDepth_parseNodesLoop_parseElementWithDepth_dom (Inl (source, ctx, d, m)) \<Longrightarrow>
     (\<forall>ns ctx'. parseNodesWithDepth source ctx d m = Inr (ns, ctx') \<longrightarrow>
        ctx_tokens ctx' = ctx_tokens ctx \<and> ctx_position ctx \<le> ctx_position ctx')"
  "parseNodesWithDepth_parseNodesLoop_parseElementWithDepth_dom (Inr (Inl (source, ctx, d, m, nodes))) \<Longrightarrow>
     (\<forall>ns ctx'. parseNodesLoop source ctx d m nodes = Inr (ns, ctx') \<longrightarrow>
        ctx_tokens ctx' = ctx_tokens ctx \<and> ctx_position ctx \<le> ctx_position ctx')"
  "parseNodesWithDepth_parseNodesLoop_parseElementWithDepth_dom (Inr (Inr (source, ctx, d, m))) \<Longrightarrow>
     (\<forall>el ctx'. parseElementWithDepth source ctx d m = Inr (el, ctx') \<longrightarrow>
        ctx_tokens ctx' = ctx_tokens ctx \<and> ctx_position ctx < ctx_position ctx')"
proof (induction rule: parseNodesWithDepth_parseNodesLoop_parseElementWithDepth.pinduct)
  case (1 source ctx currentDepth maxDepth)
  note eq = parseNodesWithDepth.psimps[OF 1(1)]
  show ?case
  proof (intro allI impI)
    fix ns ctx'
    assume r: "parseNodesWithDepth source ctx currentDepth maxDepth = Inr (ns, ctx')"
    have nd: "\<not> maxDepth < currentDepth"
      using r unfolding eq by (auto split: if_splits)
    with r have "parseNodesLoop source ctx currentDepth maxDepth [] = Inr (ns, ctx')"
      unfolding eq by simp
    with 1(2)[OF nd] show "ctx_tokens ctx' = ctx_tokens ctx \<and> ctx_position ctx \<le> ctx_position ctx'"
      by blast
  qed
next
  case (2 source ctx currentDepth maxDepth nodes)
  note eq = parseNodesLoop.psimps[OF 2(1)]
  show ?case
  proof (intro allI impI)
    fix ns ctx'
    assume r: "parseNodesLoop source ctx currentDepth maxDepth nodes = Inr (ns, ctx')"
    show "ctx_tokens ctx' = ctx_tokens ctx \<and> ctx_position ctx \<le> ctx_position ctx'"
    proof (cases "ctx_position ctx < length (ctx_tokens ctx)")
      case False
      with r show ?thesis unfolding eq by simp
    next
      case inb: True
      define token where "token = ctx_tokens ctx ! ctx_position ctx"
      show ?thesis
      proof (cases "isEofToken token \<or> isCloseTagToken token")
        case True
        with r inb show ?thesis
          unfolding eq token_def by (auto simp: Let_def split: if_splits)
      next
        case nstop: False
        show ?thesis
        proof (cases "isOpenTagToken token")
          case isopen: True
          from r inb nstop isopen obtain el ctx1 where
            e: "parseElementWithDepth source ctx currentDepth maxDepth = Inr (el, ctx1)"
            and l: "parseNodesLoop source ctx1 currentDepth maxDepth (nodes @ [el]) = Inr (ns, ctx')"
            unfolding eq token_def by (auto simp: Let_def split: sum.splits if_splits)
          have "ctx_tokens ctx1 = ctx_tokens ctx \<and> ctx_position ctx < ctx_position ctx1"
            using 2(2)[OF inb token_def] nstop isopen e by blast
          moreover have "ctx_tokens ctx' = ctx_tokens ctx1 \<and> ctx_position ctx1 \<le> ctx_position ctx'"
            using 2(3)[OF inb token_def _ _ _ e refl] nstop isopen l by blast
          ultimately show ?thesis by simp
        next
          case notopen: False
          have istext: "isTextToken token"
            using nstop notopen by (auto intro: token_kind_text)
          from r inb nstop notopen istext obtain el ctx1 where
            e: "parseText ctx = Inr (el, ctx1)"
            and l: "parseNodesLoop source ctx1 currentDepth maxDepth (nodes @ [el]) = Inr (ns, ctx')"
            unfolding eq token_def by (auto simp: Let_def split: sum.splits if_splits)
          have "ctx_tokens ctx1 = ctx_tokens ctx \<and> ctx_position ctx < ctx_position ctx1"
            using e by (rule parseText_progress)
          moreover have "ctx_tokens ctx' = ctx_tokens ctx1 \<and> ctx_position ctx1 \<le> ctx_position ctx'"
            using 2(4)[OF inb token_def _ _ _ _ e refl] nstop notopen istext l by blast
          ultimately show ?thesis by simp
        qed
      qed
    qed
  qed
next
  case (3 source ctx currentDepth maxDepth)
  note eq = parseElementWithDepth.psimps[OF 3(1)]
  show ?case
  proof (intro allI impI)
    fix el ctx'
    assume r: "parseElementWithDepth source ctx currentDepth maxDepth = Inr (el, ctx')"
    have ok: "\<not> \<not> (ctx_position ctx < length (ctx_tokens ctx)
                \<and> isOpenTagToken (ctx_tokens ctx ! ctx_position ctx))"
      using r unfolding eq by (auto split: if_splits)
    define openToken where "openToken = ctx_tokens ctx ! ctx_position ctx"
    define ctx1 where "ctx1 = ctx\<lparr>ctx_position := ctx_position ctx + 1,
                        tagStack := tagStack ctx @ [(tok_tagName openToken, openToken)]\<rparr>"
    from r ok obtain children ctx2 where
      n: "parseNodesWithDepth source ctx1 (currentDepth + 1) maxDepth = Inr (children, ctx2)"
      and c: "ctx' = ctx2\<lparr>ctx_position := ctx_position ctx2 + 1,
                                   tagStack := butlast (tagStack ctx2)\<rparr>"
      unfolding eq openToken_def ctx1_def
      by (auto simp: Let_def split: sum.splits if_splits)
    have "ctx_tokens ctx2 = ctx_tokens ctx1 \<and> ctx_position ctx1 \<le> ctx_position ctx2"
      using 3(2)[OF ok openToken_def ctx1_def] n by blast
    with c show "ctx_tokens ctx' = ctx_tokens ctx \<and> ctx_position ctx < ctx_position ctx'"
      by (simp add: ctx1_def)
  qed
qed

termination parseNodesWithDepth
proof (relation "measure (\<lambda>x. case x of
      Inl (source, ctx, d, m) \<Rightarrow> 3 * (length (ctx_tokens ctx) - ctx_position ctx) + 2
    | Inr (Inl (source, ctx, d, m, nodes)) \<Rightarrow> 3 * (length (ctx_tokens ctx) - ctx_position ctx) + 1
    | Inr (Inr (source, ctx, d, m)) \<Rightarrow> 3 * (length (ctx_tokens ctx) - ctx_position ctx))",
    goal_cases)
  case 1
  show ?case by simp
next
  case (2 source ctx currentDepth maxDepth)
  show ?case by simp
next
  case (3 source ctx currentDepth maxDepth nodes x)
  show ?case by simp
next
  case (4 source ctx currentDepth maxDepth nodes x b xa y)
  then have "ctx_tokens y = ctx_tokens ctx \<and> ctx_position ctx < ctx_position y"
    using parse_progress_partial(3)[of source ctx currentDepth maxDepth] by auto
  with 4(1) show ?case by auto
next
  case (5 source ctx currentDepth maxDepth nodes x b xa y)
  then have "ctx_tokens y = ctx_tokens ctx \<and> ctx_position ctx < ctx_position y"
    using parseText_progress[of ctx xa y] by auto
  with 5(1) show ?case by auto
next
  case (6 source ctx currentDepth maxDepth nodes x)
  then show ?case by auto
next
  case (7 source ctx currentDepth maxDepth x xa)
  then show ?case by auto
qed

declare parseNodesWithDepth.simps [simp del] parseNodesLoop.simps [simp del]
  parseElementWithDepth.simps [simp del]

definition parseWithOptions :: "string \<Rightarrow> ParseOptions \<Rightarrow> Thrown + TamlNode" where
  "parseWithOptions source options =
     (case tokenize source of
        Inl e \<Rightarrow> Inl e
      | Inr toks \<Rightarrow>
          (let context = \<lparr>ctx_tokens = toks, ctx_position = 0, tagStack = []\<rparr>
           in case parseNodesWithDepth source context 0 (opt_maxDepth options) of
                Inl e \<Rightarrow> Inl e
              | Inr (cs, context') \<Rightarrow>
                  if length (tagStack context') > 0 then
                    (let unclosedTag = last (tagStack context')
                     in Inl (Positioned (UnclosedTagError (fst unclosedTag)
                               (tok_start (snd unclosedTag)) (tok_line (snd unclosedTag))
                               (tok_column (snd unclosedTag)) source)))
                  else Inr (createDocument cs 0 (length source))))"

fun stripPositionsFromNode :: "TamlNode \<Rightarrow> TamlNode" where
  "stripPositionsFromNode (DocumentNode cs s e) =
     createDocument (map stripPositionsFromNode cs) 0 0"
| "stripPositionsFromNode (ElementNode t cs s e) =
     createElement t (map stripPositionsFromNode cs) 0 0"
| "stripPositionsFromNode (TextNode c s e) = createText c 0 0"

definition stripPositions :: "TamlNode \<Rightarrow> TamlNode" where
  "stripPositions node = createDocument (map stripPositionsFromNode (node_children node)) 0 0"

definition applyDefaults :: "bool option \<Rightarrow> nat option \<Rightarrow> ParseOptions" where
  \<comment> \<open>\<open>{ includePositions: true, maxDepth: 100, ...options }\<close>; a field the caller's
      options leave out is \<open>None\<close>\<close>
  "applyDefaults optIncludePositions optMaxDepth =
     \<lparr>opt_includePositions = (case optIncludePositions of None \<Rightarrow> True | Some b \<Rightarrow> b),
      opt_maxDepth = (case optMaxDepth of None \<Rightarrow> 100 | Some n \<Rightarrow> n)\<rparr>"

definition parseTaml :: "string \<Rightarrow> bool option \<Rightarrow> nat option \<Rightarrow> Thrown + TamlNode" where
  \<comment> \<open>the two optional fields of \<open>options\<close> are the second and the third argument\<close>
  "parseTaml source optIncludePositions optMaxDepth =
     (let opts = applyDefaults optIncludePositions optMaxDepth
      in case parseWithOptions source opts of
           Inl e \<Rightarrow> Inl e
         | Inr ast \<Rightarrow> if \<not> opt_includePositions opts then Inr (stripPositions ast) else Inr ast)"

section \<open>Validator (validator.ts)\<close>

text \<open>
  The validation context is the parse context plus the list of collected errors.
  None of the methods called inside the \<open>try\<close> block of \<open>validateTokens\<close> throws, so
  they are total functions on the context and the \<open>catch\<close> branch has no counterpart.
\<close>

record ValidationContext = ParseContext +
  errors :: "Thrown list"

record ValidationResult =
  valid :: bool
  result_errors :: "Thrown list"

definition validateOpenTag ::
  "string \<Rightarrow> ValidationContext \<Rightarrow> TamlToken \<Rightarrow> ValidationContext" where
  "validateOpenTag source context token =
     (if \<not> isOpenTagToken token then context\<lparr>ctx_position := ctx_position context + 1\<rparr>
      else if \<not> isValidTag (tok_tagName token) then
        context\<lparr>errors := errors context @
                   [Positioned (InvalidTagError (tok_tagName token) (tok_start token)
                      (tok_line token) (tok_column token) source)],
                ctx_position := ctx_position context + 1\<rparr>
      else
        context\<lparr>tagStack := tagStack context @ [(tok_tagName token, token)],
                ctx_position := ctx_position context + 1\<rparr>)"

definition validateCloseTag ::
  "string \<Rightarrow> ValidationContext \<Rightarrow> TamlToken \<Rightarrow> ValidationContext" where
  "validateCloseTag source context token =
     (if \<not> isCloseTagToken token then context\<lparr>ctx_position := ctx_position context + 1\<rparr>
      else if \<not> isValidTag (tok_tagName token) then
        context\<lparr>errors := errors context @
                   [Positioned (InvalidTagError (tok_tagName token) (tok_start token)
                      (tok_line token) (tok_column token) source)],
                ctx_position := ctx_position context + 1\<rparr>
      else if length (tagStack context) = 0 then
        context\<lparr>errors := errors context @
                   [Positioned (MismatchedTagError ''(none)'' (tok_tagName token)
                      (tok_start token) (tok_line token) (tok_column token) source)],
                ctx_position := ctx_position context + 1\<rparr>
      else
        (let lastOpenTag = last (tagStack context)
         in if fst lastOpenTag \<noteq> tok_tagName token then
              context\<lparr>errors := errors context @
                         [Positioned (MismatchedTagError (fst lastOpenTag) (tok_tagName token)
                            (tok_start token) (tok_line token) (tok_column token) source)],
                      ctx_position := ctx_position context + 1\<rparr>
            else
              context\<lparr>tagStack := butlast (tagStack context),
                      ctx_position := ctx_position context + 1\<rparr>))"

lemma validateOpenTag_step:
  "ctx_tokens (validateOpenTag source context token) = ctx_tokens context \<and>
   ctx_position (validateOpenTag source context token) = ctx_position context + 1"
  by (simp add: validateOpenTag_def)

lemma validateCloseTag_step:
  "ctx_tokens (validateCloseTag source context token) = ctx_tokens context \<and>
   ctx_position (validateCloseTag source context token) = ctx_position context + 1"
  by (simp add: validateCloseTag_def Let_def)

function validateTokenSequence :: "string \<Rightarrow> ValidationContext \<Rightarrow> ValidationContext" where
  "validateTokenSequence source context =
     (if ctx_position context < length (ctx_tokens context) then
        (let token = ctx_tokens context ! ctx_position context
         in if isEofToken token then context
            else if isOpenTagToken token then
              validateTokenSequence source (validateOpenTag source context token)
            else if isCloseTagToken token then
              validateTokenSequence source (validateCloseTag source context token)
            else if isTextToken token then
              validateTokenSequence source
                (context\<lparr>ctx_position := ctx_position context + 1\<rparr>)
            else
              validateTokenSequence source
                (context\<lparr>ctx_position := ctx_position context + 1\<rparr>))
      else context)"
  by pat_completeness auto
termination
  by (relation "measure (\<lambda>(source, context).
        length (ctx_tokens context) - ctx_position context)")
    (auto simp: validateOpenTag_step validateCloseTag_step)

declare validateTokenSequence.simps [simp del]

definition validateTokens :: "string \<Rightarrow> TamlToken list \<Rightarrow> ValidationResult" where
  "validateTokens source toks =
     (let context = \<lparr>ctx_tokens = toks, ctx_position = 0, tagStack = [], errors = []\<rparr>;
          context1 = validateTokenSequence source context;
          context2 =
            (if length (tagStack context1) > 0 then
               (let unclosedTag = last (tagStack context1)
                in context1\<lparr>errors := errors context1 @
                     [Positioned (UnclosedTagError (fst unclosedTag)
                        (tok_start (snd unclosedTag)) (tok_line (snd unclosedTag))
                        (tok_column (snd unclosedTag)) source)]\<rparr>)
             else context1)
      in \<lparr>valid = (length (errors context2) = 0), result_errors = errors context2\<rparr>)"

section \<open>Text tokens and entity decoding\<close>

text \<open>
  The reference for entity decoding, written from the words of the specification and not
  from the code: reading the text from left to right, \<open>&lt;\<close> becomes \<open><\<close>, \<open>&amp;\<close>
  becomes \<open>&\<close>, and every other character, an \<open>&\<close> that starts neither of the two
  included, is copied.
\<close>

function spec_decodeEntities :: "string \<Rightarrow> string" where
  "spec_decodeEntities s =
     (if take 4 s = ''&lt;'' then CHR ''<'' # spec_decodeEntities (drop 4 s)
      else if take 5 s = ''&amp;'' then CHR ''&'' # spec_decodeEntities (drop 5 s)
      else case s of [] \<Rightarrow> [] | c # cs \<Rightarrow> c # spec_decodeEntities cs)"
  by pat_completeness auto
termination
proof (relation "measure length", goal_cases)
  case 1
  show ?case by simp
next
  case (2 s)
  then show ?case by (cases s) auto
next
  case (3 s)
  then show ?case by (cases s) auto
next
  case (4 s c cs)
  then show ?case by simp
qed

declare spec_decodeEntities.simps [simp del]

text \<open>The characters a text run consists of: everything but \<open><\<close>.\<close>

definition notLt :: "char \<Rightarrow> bool" where
  "notLt c = (c \<noteq> CHR ''<'')"

text \<open>What a token produced by the tokenizer satisfies, the end marker apart.\<close>

definition tokenOk :: "string \<Rightarrow> TamlToken \<Rightarrow> bool" where
  "tokenOk source t =
     (\<not> isEofToken t \<and> tok_start t < tok_end t \<and> tok_end t \<le> length source \<and>
      (tok_line t, tok_column t) = calculatePosition source (tok_start t) \<and>
      (isTextToken t \<or> charAt source (tok_start t) = Some CHR ''<''))"

lemma take_takeWhile_iff:
  assumes "\<forall>c\<in>set p. P c"
  shows "(take (length p) (takeWhile P xs) = p) = (take (length p) xs = p)"
  using assms
proof (induction p arbitrary: xs)
  case Nil
  then show ?case by simp
next
  case (Cons a p)
  then show ?case by (cases xs) auto
qed

lemma scanText_takeWhile:
  "scanText source pos acc =
     (pos + length (takeWhile notLt (drop pos source)),
      acc @ spec_decodeEntities (takeWhile notLt (drop pos source)))"
proof (induction source pos acc rule: scanText.induct)
  case (1 source pos acc)
  let ?seg = "takeWhile notLt (drop pos source)"
  show ?case
  proof (cases "pos < length source \<and> source ! pos \<noteq> CHR ''<''")
    case False
    then have "?seg = []"
      by (cases "pos < length source")
        (auto simp: notLt_def takeWhile_eq_Nil_iff hd_drop_conv_nth)
    moreover have "scanText source pos acc = (pos, acc)"
      using False by (subst scanText.simps) auto
    ultimately show ?thesis
      by (simp add: spec_decodeEntities.simps)
  next
    case True
    then have d: "drop pos source = source ! pos # drop (pos + 1) source"
      by (simp add: Cons_nth_drop_Suc)
    have lt: "(take 4 ?seg = ''&lt;'') = (slice source pos (pos + 4) = ''&lt;'')"
      using take_takeWhile_iff[of "''&lt;''" notLt "drop pos source"]
      by (simp add: slice_def notLt_def eval_nat_numeral)
    have amp: "(take 5 ?seg = ''&amp;'') = (slice source pos (pos + 5) = ''&amp;'')"
      using take_takeWhile_iff[of "''&amp;''" notLt "drop pos source"]
      by (simp add: slice_def notLt_def eval_nat_numeral)
    have nl: "notLt (source ! pos)" using True by (simp add: notLt_def)
    have seg: "?seg = source ! pos # takeWhile notLt (drop (pos + 1) source)"
      using d nl by simp
    show ?thesis
    proof (cases "slice source pos (pos + 4) = ''&lt;''")
      case c1: True
      then have "take 4 (drop pos source) = ''&lt;''" by (simp add: slice_def)
      then have d4: "drop pos source = ''&lt;'' @ drop (pos + 4) source"
        by (metis append_take_drop_id drop_drop add.commute)
      have seg4: "?seg = ''&lt;'' @ takeWhile notLt (drop (pos + 4) source)"
        unfolding d4 by (simp add: notLt_def)
      have amp0: "source ! pos = CHR ''&''" using d d4 by simp
      have "scanText source pos acc = scanText source (pos + 4) (acc @ ''<'')"
        using True c1 amp0 by (subst scanText.simps) simp
      also have "\<dots> = (pos + 4 + length (takeWhile notLt (drop (pos + 4) source)),
         (acc @ ''<'') @ spec_decodeEntities (takeWhile notLt (drop (pos + 4) source)))"
        using 1(1) True c1 amp0 by simp
      also have "\<dots> = (pos + length ?seg, acc @ spec_decodeEntities ?seg)"
        unfolding seg4 by (subst (2) spec_decodeEntities.simps) simp
      finally show ?thesis .
    next
      case c1: False
      show ?thesis
      proof (cases "slice source pos (pos + 5) = ''&amp;''")
        case c2: True
        then have "take 5 (drop pos source) = ''&amp;''" by (simp add: slice_def)
        then have d5: "drop pos source = ''&amp;'' @ drop (pos + 5) source"
          by (metis append_take_drop_id drop_drop add.commute)
        have seg5: "?seg = ''&amp;'' @ takeWhile notLt (drop (pos + 5) source)"
          unfolding d5 by (simp add: notLt_def)
        have amp0: "source ! pos = CHR ''&''" using d d5 by simp
        have "scanText source pos acc = scanText source (pos + 5) (acc @ ''&'')"
          using True c1 c2 amp0 by (subst scanText.simps) simp
        also have "\<dots> = (pos + 5 + length (takeWhile notLt (drop (pos + 5) source)),
           (acc @ ''&'') @ spec_decodeEntities (takeWhile notLt (drop (pos + 5) source)))"
          using 1(2) True c1 c2 amp0 by simp
        also have "\<dots> = (pos + length ?seg, acc @ spec_decodeEntities ?seg)"
          unfolding seg5 by (subst (2) spec_decodeEntities.simps) simp
        finally show ?thesis .
      next
        case c2: False
        have "scanText source pos acc = scanText source (pos + 1) (acc @ [source ! pos])"
          using True c1 c2 by (subst scanText.simps) simp
        also have "\<dots> = (pos + 1 + length (takeWhile notLt (drop (pos + 1) source)),
           (acc @ [source ! pos]) @ spec_decodeEntities (takeWhile notLt (drop (pos + 1) source)))"
          using 1(3) True c1 c2 by simp
        also have "\<dots> = (pos + length ?seg, acc @ spec_decodeEntities ?seg)"
          using c1 c2 lt amp
          by (subst (2) spec_decodeEntities.simps) (auto simp add: seg)
        finally show ?thesis .
      qed
    qed
  qed
qed

lemma calculatePosition_0: "calculatePosition source 0 = (1, 1)"
  by (simp add: calculatePosition_def calculatePositionLoop.simps)

lemma tokenizeText_takeWhile:
  "tokenizeText source st =
     (let seg = takeWhile notLt (drop (position st) source);
          p = calculatePosition source (position st)
      in st\<lparr>position := position st + length seg,
             tokens := tokens st @
               [TextToken (spec_decodeEntities seg) seg (position st) (position st + length seg)
                  (fst p) (snd p)]\<rparr>)"
  by (simp add: tokenizeText_def scanText_takeWhile Let_def slice_def
       takeWhile_eq_take[symmetric])

lemma tokenizeText_tokenOk:
  assumes "position st < length source" "source ! position st \<noteq> CHR ''<''"
  shows "\<exists>t. tokenizeText source st =
           st\<lparr>position := tok_end t, tokens := tokens st @ [t]\<rparr> \<and>
         tok_start t = position st \<and> tokenOk source t"
proof -
  let ?seg = "takeWhile notLt (drop (position st) source)"
  have d: "drop (position st) source = source ! position st # drop (position st + 1) source"
    using assms by (simp add: Cons_nth_drop_Suc)
  have ne: "0 < length ?seg"
    using assms(2) unfolding d by (simp add: notLt_def)
  have "length ?seg \<le> length (drop (position st) source)"
    by (rule length_takeWhile_le)
  then have le: "position st + length ?seg \<le> length source"
    using assms(1) by simp
  show ?thesis
    unfolding tokenizeText_takeWhile Let_def
    apply (rule exI[of _ "TextToken (spec_decodeEntities ?seg) ?seg (position st)
        (position st + length ?seg) (fst (calculatePosition source (position st)))
        (snd (calculatePosition source (position st)))"])
    using ne le by (simp add: tokenOk_def)
qed

lemma tokenizeTag_tokenOk:
  assumes "tokenizeTag source st = Inr st'"
  shows "\<exists>t. st' = st\<lparr>position := tok_end t, tokens := tokens st @ [t]\<rparr> \<and>
         tok_start t = position st \<and> tokenOk source t"
proof -
  define start where "start = position st"
  define isClosing where "isClosing = (charAt source (start + 1) = Some CHR ''/'')"
  define tagNameStart where "tagNameStart = (if isClosing then start + 2 else start + 1)"
  define pos where "pos = scanTagName source tagNameStart"
  define name where "name = slice source tagNameStart pos"
  define p where "p = calculatePosition source start"
  define t where "t = (if isClosing
       then CloseTagToken name (slice source start (pos + 1)) start (pos + 1) (fst p) (snd p)
       else OpenTagToken name (slice source start (pos + 1)) start (pos + 1) (fst p) (snd p))"
  have lt: "charAt source start = Some CHR ''<''"
    using assms by (auto simp: tokenizeTag_def Let_def start_def split: if_splits)
  have gt: "charAt source pos = Some CHR ''>''"
    using assms lt unfolding tokenizeTag_def Let_def
    by (auto simp: start_def isClosing_def tagNameStart_def pos_def split: if_splits)
  have eq: "st' = st\<lparr>position := pos + 1, tokens := tokens st @ [t]\<rparr>"
    using assms lt unfolding tokenizeTag_def Let_def
    by (auto simp: start_def isClosing_def tagNameStart_def pos_def name_def p_def t_def
        split: if_splits)
  have "tagNameStart \<le> pos" unfolding pos_def by (rule scanTagName_mono)
  then have lo: "start < pos + 1" by (simp add: tagNameStart_def split: if_splits)
  have hi: "pos + 1 \<le> length source"
    using gt by (simp add: charAt_def split: if_splits)
  have "tokenOk source t"
    using lo hi lt by (simp add: tokenOk_def t_def p_def)
  moreover have "tok_start t = position st" "tok_end t = pos + 1"
    by (simp_all add: t_def start_def)
  ultimately show ?thesis using eq by (intro exI[of _ t]) simp
qed

lemma tokenizeNext_tokenOk:
  assumes "position st < length source" "tokenizeNext source st = Inr st'"
  shows "\<exists>t. st' = st\<lparr>position := tok_end t, tokens := tokens st @ [t]\<rparr> \<and>
         tok_start t = position st \<and> tokenOk source t"
proof (cases "source ! position st = CHR ''<''")
  case True
  with assms have "tokenizeTag source st = Inr st'" by (simp add: tokenizeNext_def)
  then show ?thesis by (rule tokenizeTag_tokenOk)
next
  case False
  with assms have "st' = tokenizeText source st" by (simp add: tokenizeNext_def)
  with tokenizeText_tokenOk[OF assms(1) False] show ?thesis by simp
qed

lemma tokenizeLoop_tokenOk:
  "tokenizeLoop source st = Inr st' \<Longrightarrow> position st \<le> length source \<Longrightarrow>
   list_all (tokenOk source) (tokens st) \<Longrightarrow>
   position st' = length source \<and> list_all (tokenOk source) (tokens st')"
proof (induction source st rule: tokenizeLoop.induct)
  case (1 source st)
  show ?case
  proof (cases "position st < length source")
    case False
    with 1(2,3,4) show ?thesis by (simp add: tokenizeLoop.simps)
  next
    case True
    with 1(2) obtain st1 where n: "tokenizeNext source st = Inr st1"
      and l: "tokenizeLoop source st1 = Inr st'"
      by (subst (asm) tokenizeLoop.simps) (auto split: sum.splits)
    from tokenizeNext_tokenOk[OF True n] obtain t where
      t: "st1 = st\<lparr>position := tok_end t, tokens := tokens st @ [t]\<rparr>" "tokenOk source t"
      by blast
    have "position st1 \<le> length source" using t by (simp add: tokenOk_def)
    moreover have "list_all (tokenOk source) (tokens st1)" using t 1(4) by simp
    ultimately show ?thesis using 1(1)[OF True n l] by simp
  qed
qed

lemma tokenize_shape:
  assumes "tokenize source = Inr toks"
  shows "\<exists>body. toks = body @ [EofToken [] (length source) (length source)
            (fst (calculatePosition source (length source)))
            (snd (calculatePosition source (length source)))] \<and>
          list_all (tokenOk source) body"
proof -
  from assms obtain st where l: "tokenizeLoop source \<lparr>position = 0, tokens = []\<rparr> = Inr st"
    and toks: "toks = tokens st @ [EofToken [] (position st) (position st)
            (fst (calculatePosition source (position st)))
            (snd (calculatePosition source (position st)))]"
    by (auto simp: tokenize_def Let_def split: sum.splits)
  from tokenizeLoop_tokenOk[OF l] have "position st = length source"
    and "list_all (tokenOk source) (tokens st)" by simp_all
  with toks show ?thesis by simp
qed


text \<open>
  Claim C3, as amended. For every non-empty string \<open>s\<close> without \<open><\<close>, \<open>tokenize s\<close> is
  exactly one text token, whose content is \<open>s\<close> with the two entities decoded and whose
  raw value is \<open>s\<close>, followed by exactly one end token. (For the empty string the result
  is the end token alone.)
\<close>

theorem tokenize_text_only:
  assumes "s \<noteq> []" "CHR ''<'' \<notin> set s"
  shows "tokenize s =
     Inr [TextToken (spec_decodeEntities s) s 0 (length s) 1 1,
          EofToken [] (length s) (length s)
            (fst (calculatePosition s (length s))) (snd (calculatePosition s (length s)))]"
proof -
  have tw: "takeWhile notLt s = s"
    using assms(2) by (auto simp: notLt_def)
  have h: "s ! 0 \<noteq> CHR ''<''"
    using assms by (cases s) auto
  let ?st = "\<lparr>position = 0, tokens = []\<rparr>"
  have n: "tokenizeNext s ?st = Inr (tokenizeText s ?st)"
    using assms h by (simp add: tokenizeNext_def)
  have t: "tokenizeText s ?st = \<lparr>position = length s,
      tokens = [TextToken (spec_decodeEntities s) s 0 (length s) 1 1]\<rparr>"
    by (simp add: tokenizeText_takeWhile tw calculatePosition_0)
  have "tokenizeLoop s ?st = Inr \<lparr>position = length s,
      tokens = [TextToken (spec_decodeEntities s) s 0 (length s) 1 1]\<rparr>"
    using assms(1) n t by (subst tokenizeLoop.simps, simp, subst tokenizeLoop.simps, simp)
  then show ?thesis by (simp add: tokenize_def Let_def)
qed

theorem tokenize_text_only_witness:
  "''R&amp;D'' \<noteq> [] \<and> CHR ''<'' \<notin> set ''R&amp;D'' \<and>
   tokenize ''R&amp;D'' =
     Inr [TextToken ''R&D'' ''R&amp;D'' 0 7 1 1, EofToken [] 7 7 1 8]"
  using tokenize_text_only[of "''R&amp;D''"]
  by (simp add: spec_decodeEntities.simps calculatePosition_def calculatePositionLoop.simps)

text \<open>
  The claim C3 as stated includes the empty string, for which it fails: the loop of
  \<open>tokenize\<close> does not run and no text token is produced.
\<close>

theorem tokenize_empty_counterexample:
  "CHR ''<'' \<notin> set '''' \<and> tokenize '''' = Inr [EofToken [] 0 0 1 1]"
  by code_simp

text \<open>
  Claim C6. When \<open>tokenize\<close> succeeds, the sequence is not empty and its last token is
  the end token with start and end equal to the length of the source; every token
  before it is not an end token and has \<open>start < end\<close>; and the line and column of every
  token are those of \<open>calculatePosition\<close> at its start.
\<close>

theorem tokenize_token_invariant:
  assumes "tokenize source = Inr toks"
  shows "toks \<noteq> [] \<and>
         last toks = EofToken [] (length source) (length source)
            (fst (calculatePosition source (length source)))
            (snd (calculatePosition source (length source))) \<and>
         list_all (\<lambda>t. \<not> isEofToken t \<and> tok_start t < tok_end t) (butlast toks) \<and>
         list_all (\<lambda>t. (tok_line t, tok_column t) = calculatePosition source (tok_start t)) toks"
proof -
  from tokenize_shape[OF assms] obtain body where
    b: "toks = body @ [EofToken [] (length source) (length source)
            (fst (calculatePosition source (length source)))
            (snd (calculatePosition source (length source)))]"
    and ok: "list_all (tokenOk source) body" by blast
  from ok have "list_all (\<lambda>t. \<not> isEofToken t \<and> tok_start t < tok_end t) body"
    and "list_all (\<lambda>t. (tok_line t, tok_column t) = calculatePosition source (tok_start t)) body"
    by (auto simp: list_all_iff tokenOk_def)
  with b show ?thesis by simp
qed

theorem tokenize_token_invariant_witness:
  "tokenize ''a<red>'' =
     Inr [TextToken ''a'' ''a'' 0 1 1 1, OpenTagToken ''red'' ''<red>'' 1 6 1 2,
          EofToken [] 6 6 1 7] \<and>
   last [TextToken ''a'' ''a'' 0 1 1 1, OpenTagToken ''red'' ''<red>'' 1 6 1 2,
         EofToken [] 6 6 1 7] =
     EofToken [] (length ''a<red>'') (length ''a<red>'')
       (fst (calculatePosition ''a<red>'' (length ''a<red>'')))
       (snd (calculatePosition ''a<red>'' (length ''a<red>''))) \<and>
   list_all (\<lambda>t. \<not> isEofToken t \<and> tok_start t < tok_end t)
     (butlast [TextToken ''a'' ''a'' 0 1 1 1, OpenTagToken ''red'' ''<red>'' 1 6 1 2,
               EofToken [] 6 6 1 7]) \<and>
   list_all (\<lambda>t. (tok_line t, tok_column t) = calculatePosition ''a<red>'' (tok_start t))
     [TextToken ''a'' ''a'' 0 1 1 1, OpenTagToken ''red'' ''<red>'' 1 6 1 2,
      EofToken [] 6 6 1 7]"
proof -
  have h: "tokenize ''a<red>'' = Inr [TextToken ''a'' ''a'' 0 1 1 1,
      OpenTagToken ''red'' ''<red>'' 1 6 1 2, EofToken [] 6 6 1 7]"
    by code_simp
  from tokenize_token_invariant[OF h] h show ?thesis by blast
qed

text \<open>
  Claim C7. The text token made by \<open>tokenizeText\<close> has as content the decoding of its
  raw value, in which exactly \<open>&lt;\<close> and \<open>&amp;\<close> are replaced and every other \<open>&\<close> is
  copied; the text content of \<open>5 &lt; 10 &amp; R&D\<close> is \<open>5 < 10 & R&D\<close>, and that of
  \<open>5 &lt 10\<close> is \<open>5 &lt 10\<close>.
\<close>

theorem tokenizeText_decodes_two_entities:
  "tokenizeText source st =
     (let seg = takeWhile notLt (drop (position st) source);
          p = calculatePosition source (position st)
      in st\<lparr>position := position st + length seg,
             tokens := tokens st @
               [TextToken (spec_decodeEntities seg) seg (position st)
                  (position st + length seg) (fst p) (snd p)]\<rparr>)
   \<and> tokenize ''5 &lt; 10 &amp; R&D'' =
       Inr [TextToken ''5 < 10 & R&D'' ''5 &lt; 10 &amp; R&D'' 0 19 1 1, EofToken [] 19 19 1 20]
   \<and> tokenize ''5 &lt 10'' =
       Inr [TextToken ''5 &lt 10'' ''5 &lt 10'' 0 8 1 1, EofToken [] 8 8 1 9]"
proof (intro conjI)
  show "tokenizeText source st =
     (let seg = takeWhile notLt (drop (position st) source);
          p = calculatePosition source (position st)
      in st\<lparr>position := position st + length seg,
             tokens := tokens st @
               [TextToken (spec_decodeEntities seg) seg (position st)
                  (position st + length seg) (fst p) (snd p)]\<rparr>)"
    by (rule tokenizeText_takeWhile)
  show "tokenize ''5 &lt; 10 &amp; R&D'' =
       Inr [TextToken ''5 < 10 & R&D'' ''5 &lt; 10 &amp; R&D'' 0 19 1 1, EofToken [] 19 19 1 20]"
    by code_simp
  show "tokenize ''5 &lt 10'' =
       Inr [TextToken ''5 &lt 10'' ''5 &lt 10'' 0 8 1 1, EofToken [] 8 8 1 9]"
    by code_simp
qed

section \<open>Stripping positions\<close>

text \<open>
  The structure of a tree, positions left out: node kinds, tag names, text contents and
  the children in their order. \<open>positionsZero\<close> says that the start and end of every
  node of a tree are 0.
\<close>

datatype Shape =
    DocumentShape "Shape list"
  | ElementShape string "Shape list"
  | TextShape string

fun shape :: "TamlNode \<Rightarrow> Shape" where
  "shape (DocumentNode cs s e) = DocumentShape (map shape cs)"
| "shape (ElementNode t cs s e) = ElementShape t (map shape cs)"
| "shape (TextNode c s e) = TextShape c"

fun positionsZero :: "TamlNode \<Rightarrow> bool" where
  "positionsZero (DocumentNode cs s e) = (s = 0 \<and> e = 0 \<and> list_all positionsZero cs)"
| "positionsZero (ElementNode t cs s e) = (s = 0 \<and> e = 0 \<and> list_all positionsZero cs)"
| "positionsZero (TextNode c s e) = (s = 0 \<and> e = 0)"

lemma shape_stripPositionsFromNode: "shape (stripPositionsFromNode n) = shape n"
  by (induction n) (simp_all add: createDocument_def createElement_def createText_def)

lemma positionsZero_stripPositionsFromNode: "positionsZero (stripPositionsFromNode n)"
  by (induction n)
    (simp_all add: createDocument_def createElement_def createText_def list_all_iff)

lemma parseWithOptions_document:
  "parseWithOptions source options = Inr ast \<Longrightarrow> \<exists>cs. ast = DocumentNode cs 0 (length source)"
  by (auto simp: parseWithOptions_def Let_def createDocument_def
      split: sum.splits prod.splits if_splits)

text \<open>
  Claim C9. Whenever \<open>parseTaml\<close> succeeds on a source, \<open>parseTaml\<close> with
  \<open>includePositions: false\<close> returns the tree \<open>stripPositions\<close> makes of that result; it
  has the same structure, and the start and end of every one of its nodes are 0.
\<close>

theorem parseTaml_without_positions:
  assumes "parseTaml source None m = Inr ast"
  shows "parseTaml source (Some False) m = Inr (stripPositions ast) \<and>
         shape (stripPositions ast) = shape ast \<and>
         positionsZero (stripPositions ast)"
proof -
  have o: "opt_maxDepth (applyDefaults (Some False) m) = opt_maxDepth (applyDefaults None m)"
    by (simp add: applyDefaults_def)
  have pw: "parseWithOptions source (applyDefaults (Some False) m)
      = parseWithOptions source (applyDefaults None m)"
    unfolding parseWithOptions_def o ..
  from assms have p: "parseWithOptions source (applyDefaults None m) = Inr ast"
    by (auto simp: parseTaml_def Let_def applyDefaults_def split: sum.splits)
  from parseWithOptions_document[OF p] obtain cs where ast: "ast = DocumentNode cs 0 (length source)"
    by blast
  have 1: "parseTaml source (Some False) m = Inr (stripPositions ast)"
    using p pw by (simp add: parseTaml_def Let_def applyDefaults_def)
  have 2: "shape (stripPositions ast) = shape ast"
    by (simp add: ast stripPositions_def createDocument_def shape_stripPositionsFromNode)
  have 3: "positionsZero (stripPositions ast)"
    by (simp add: stripPositions_def createDocument_def list_all_iff
        positionsZero_stripPositionsFromNode)
  from 1 2 3 show ?thesis by simp
qed

theorem parseTaml_without_positions_witness:
  "parseTaml ''<red>Hello</red>'' None None =
     Inr (DocumentNode [ElementNode ''red'' [TextNode ''Hello'' 5 10] 0 16] 0 16) \<and>
   parseTaml ''<red>Hello</red>'' (Some False) None =
     Inr (DocumentNode [ElementNode ''red'' [TextNode ''Hello'' 0 0] 0 0] 0 0) \<and>
   shape (DocumentNode [ElementNode ''red'' [TextNode ''Hello'' 0 0] 0 0] 0 0) =
     shape (DocumentNode [ElementNode ''red'' [TextNode ''Hello'' 5 10] 0 16] 0 16) \<and>
   positionsZero (DocumentNode [ElementNode ''red'' [TextNode ''Hello'' 0 0] 0 0] 0 0)"
proof -
  have h: "parseTaml ''<red>Hello</red>'' None None =
     Inr (DocumentNode [ElementNode ''red'' [TextNode ''Hello'' 5 10] 0 16] 0 16)"
    by code_simp
  have s: "stripPositions (DocumentNode [ElementNode ''red'' [TextNode ''Hello'' 5 10] 0 16] 0 16)
      = DocumentNode [ElementNode ''red'' [TextNode ''Hello'' 0 0] 0 0] 0 0"
    by (simp add: stripPositions_def createDocument_def createElement_def createText_def)
  from parseTaml_without_positions[OF h] h show ?thesis unfolding s by simp
qed

section \<open>Nesting of a token sequence\<close>

text \<open>
  The reference for nesting, written from the specification's description of the tag
  stack and not from the parser: reading the tokens up to the end marker, an open tag is
  pushed, a close tag pops the top of the stack when it bears the same name (and the
  sequence is ill-formed otherwise), and text is passed over. The depth of the stack
  is the current nesting depth and its top is the innermost open element.
  \<open>scanNesting ts st n\<close> starts from the stack \<open>st\<close> (innermost first) and the greatest
  depth \<open>n\<close> seen so far, and returns the final stack and greatest depth.
\<close>

fun scanNesting ::
  "TamlToken list \<Rightarrow> TamlToken list \<Rightarrow> nat \<Rightarrow> (TamlToken list \<times> nat) option" where
  "scanNesting [] st n = Some (st, n)"
| "scanNesting (t # ts) st n =
     (if isEofToken t then Some (st, n)
      else if isOpenTagToken t then scanNesting ts (t # st) (max n (length st + 1))
      else if isCloseTagToken t then
        (case st of
           [] \<Rightarrow> None
         | opened # st' \<Rightarrow>
             if tok_tagName opened = tok_tagName t then scanNesting ts st' n else None)
      else scanNesting ts st n)"

text \<open>
  A source is well-formed and nested \<open>n\<close> levels deep when it tokenizes, every close tag
  matches and no tag is left open, \<open>n\<close> being the greatest depth reached. The innermost
  unclosed tag of a source is the top of the stack left at the end.
\<close>

definition nestingDepth :: "string \<Rightarrow> nat option" where
  "nestingDepth source =
     (case tokenize source of
        Inl e \<Rightarrow> None
      | Inr toks \<Rightarrow>
          (case scanNesting toks [] 0 of
             Some ([], n) \<Rightarrow> Some n
           | _ \<Rightarrow> None))"

definition innermostUnclosed :: "string \<Rightarrow> TamlToken option" where
  "innermostUnclosed source =
     (case tokenize source of
        Inl e \<Rightarrow> None
      | Inr toks \<Rightarrow>
          (case scanNesting toks [] 0 of
             Some (t # st, n) \<Rightarrow> Some t
           | _ \<Rightarrow> None))"

text \<open>
  How a run of the parser on a context relates to the scan of the tokens that remain in
  that context. These predicates serve the proofs only.
\<close>

definition remaining :: "ParseContext \<Rightarrow> TamlToken list" where
  "remaining ctx = drop (ctx_position ctx) (ctx_tokens ctx)"

definition stops :: "TamlToken list \<Rightarrow> bool" where
  "stops r = (case r of [] \<Rightarrow> True | t # _ \<Rightarrow> isEofToken t \<or> isCloseTagToken t)"

definition errorAgrees ::
  "string \<Rightarrow> nat \<Rightarrow> TamlToken list \<Rightarrow> Thrown \<Rightarrow> (TamlToken list \<times> nat) option \<Rightarrow> bool"
  where
  "errorAgrees src m toks e sc =
     (case e of
        Plain (MaxDepthExceeded k) \<Rightarrow>
          k = m \<and> (case sc of None \<Rightarrow> True | Some (st, n) \<Rightarrow> m < n)
      | Plain _ \<Rightarrow> False
      | Positioned (UnclosedTagError name pos line col s) \<Rightarrow>
          (case sc of
             Some (t # _, n) \<Rightarrow>
               s = src \<and> name = tok_tagName t \<and> pos = tok_start t \<and>
               line = tok_line t \<and> col = tok_column t
           | _ \<Rightarrow> False)
      | Positioned (MismatchedTagError _ _ pos line col s) \<Rightarrow>
          sc = None \<and> s = src \<and>
          list_ex (\<lambda>t. isCloseTagToken t \<and> pos = tok_start t \<and>
                     line = tok_line t \<and> col = tok_column t) toks
      | Positioned _ \<Rightarrow> False)"

definition successAgrees ::
  "nat \<Rightarrow> ParseContext \<Rightarrow> TamlToken list \<Rightarrow> nat \<Rightarrow> ParseContext \<Rightarrow> bool" where
  "successAgrees m ctx st dmax ctx' =
     (ctx_tokens ctx' = ctx_tokens ctx \<and> tagStack ctx' = tagStack ctx \<and>
      (\<exists>dmax'. dmax \<le> dmax' \<and> (dmax \<le> m \<longrightarrow> dmax' \<le> m) \<and>
         scanNesting (remaining ctx) st dmax = scanNesting (remaining ctx') st dmax'))"

definition resultAgrees ::
  "string \<Rightarrow> nat \<Rightarrow> ParseContext \<Rightarrow> TamlToken list \<Rightarrow> nat \<Rightarrow> bool
     \<Rightarrow> Thrown + ('a \<times> ParseContext) \<Rightarrow> bool" where
  "resultAgrees src m ctx st dmax needStop res =
     (case res of
        Inl e \<Rightarrow> errorAgrees src m (ctx_tokens ctx) e (scanNesting (remaining ctx) st dmax)
      | Inr (x, ctx') \<Rightarrow>
          successAgrees m ctx st dmax ctx' \<and> (needStop \<longrightarrow> stops (remaining ctx')))"

definition isLexicalError :: "Thrown \<Rightarrow> bool" where
  "isLexicalError e =
     (case e of
        Positioned (MalformedTagError _ _ _ _ _) \<Rightarrow> True
      | Positioned (UnexpectedEndOfInputError _ _ _ _ _) \<Rightarrow> True
      | Positioned (InvalidTagError _ _ _ _ _) \<Rightarrow> True
      | _ \<Rightarrow> False)"

lemma scanNesting_dmax_le:
  "scanNesting ts st n = Some (st', n') \<Longrightarrow> n \<le> n'"
  by (induction ts st n rule: scanNesting.induct)
    (auto split: if_splits list.splits)

lemma remaining_Nil:
  "\<not> ctx_position ctx < length (ctx_tokens ctx) \<Longrightarrow> remaining ctx = []"
  by (simp add: remaining_def)

lemma remaining_Cons:
  "ctx_position ctx < length (ctx_tokens ctx) \<Longrightarrow> ctx_tokens ctx' = ctx_tokens ctx \<Longrightarrow>
   ctx_position ctx' = ctx_position ctx + 1 \<Longrightarrow>
   remaining ctx = ctx_tokens ctx ! ctx_position ctx # remaining ctx'"
  by (simp add: remaining_def Cons_nth_drop_Suc)

lemma resultAgrees_compose:
  fixes res :: "Thrown + ('a \<times> ParseContext)"
  assumes "ctx_tokens ctx1 = ctx_tokens ctx" "tagStack ctx1 = tagStack ctx"
    and "dmax \<le> dmax1" "dmax \<le> m \<longrightarrow> dmax1 \<le> m"
    and "scanNesting (remaining ctx) st dmax = scanNesting (remaining ctx1) st dmax1"
    and "resultAgrees src m ctx1 st dmax1 b res"
  shows "resultAgrees src m ctx st dmax b res"
proof (cases res)
  case (Inl e)
  with assms show ?thesis by (simp add: resultAgrees_def)
next
  case (Inr p)
  obtain x ctx' where p: "p = (x, ctx')" by (cases p)
  from assms(6) Inr p obtain dmax' where
    a: "ctx_tokens ctx' = ctx_tokens ctx1" "tagStack ctx' = tagStack ctx1"
       "dmax1 \<le> dmax'" "dmax1 \<le> m \<longrightarrow> dmax' \<le> m"
       "scanNesting (remaining ctx1) st dmax1 = scanNesting (remaining ctx') st dmax'"
    and s: "b \<longrightarrow> stops (remaining ctx')"
    by (auto simp: resultAgrees_def successAgrees_def)
  have "successAgrees m ctx st dmax ctx'"
    unfolding successAgrees_def
    using assms(1-5) a by (intro conjI exI[of _ dmax']) auto
  with s Inr p show ?thesis by (simp add: resultAgrees_def)
qed


lemma parser_agrees_scan:
  shows
    "\<forall>st dmax. length st = d \<longrightarrow> d \<le> dmax \<longrightarrow>
       resultAgrees source m ctx st dmax True (parseNodesWithDepth source ctx d m)"
  and
    "\<forall>st dmax. length st = d \<longrightarrow> d \<le> dmax \<longrightarrow>
       resultAgrees source m ctx st dmax True (parseNodesLoop source ctx d m nodes)"
  and
    "\<forall>st dmax. length st = d \<longrightarrow> d \<le> dmax \<longrightarrow>
       ctx_position ctx < length (ctx_tokens ctx) \<longrightarrow>
       isOpenTagToken (ctx_tokens ctx ! ctx_position ctx) \<longrightarrow>
       resultAgrees source m ctx st dmax False (parseElementWithDepth source ctx d m)"
proof (induction source ctx d m and source ctx d m nodes and source ctx d m
    rule: parseNodesWithDepth_parseNodesLoop_parseElementWithDepth.induct)
  case (1 source ctx currentDepth maxDepth)
  show ?case
  proof (intro allI impI)
    fix st :: "TamlToken list" and dmax :: nat
    assume len: "length st = currentDepth" and le: "currentDepth \<le> dmax"
    show "resultAgrees source maxDepth ctx st dmax True
            (parseNodesWithDepth source ctx currentDepth maxDepth)"
    proof (cases "maxDepth < currentDepth")
      case True
      then have r: "parseNodesWithDepth source ctx currentDepth maxDepth =
          Inl (Plain (MaxDepthExceeded maxDepth))"
        by (subst parseNodesWithDepth.simps) simp
      have "errorAgrees source maxDepth (ctx_tokens ctx) (Plain (MaxDepthExceeded maxDepth))
              (scanNesting (remaining ctx) st dmax)"
        using True le
        by (auto simp: errorAgrees_def split: option.splits dest!: scanNesting_dmax_le)
      with r show ?thesis by (simp add: resultAgrees_def)
    next
      case False
      then have r: "parseNodesWithDepth source ctx currentDepth maxDepth =
          parseNodesLoop source ctx currentDepth maxDepth []"
        by (subst parseNodesWithDepth.simps) simp
      from 1[OF False] len le show ?thesis unfolding r by blast
    qed
  qed
next
  case (2 source ctx currentDepth maxDepth nodes)
  show ?case
  proof (intro allI impI)
    fix st :: "TamlToken list" and dmax :: nat
    assume len: "length st = currentDepth" and le: "currentDepth \<le> dmax"
    let ?res = "parseNodesLoop source ctx currentDepth maxDepth nodes"
    have self: "successAgrees maxDepth ctx st dmax ctx"
      unfolding successAgrees_def by (intro conjI exI[of _ dmax]) auto
    show "resultAgrees source maxDepth ctx st dmax True ?res"
    proof (cases "ctx_position ctx < length (ctx_tokens ctx)")
      case False
      then have "?res = Inr (nodes, ctx)" by (subst parseNodesLoop.simps) simp
      moreover have "stops (remaining ctx)"
        using remaining_Nil[OF False] by (simp add: stops_def)
      ultimately show ?thesis using self by (simp add: resultAgrees_def)
    next
      case inb: True
      define token where "token = ctx_tokens ctx ! ctx_position ctx"
      show ?thesis
      proof (cases "isEofToken token \<or> isCloseTagToken token")
        case True
        then have "?res = Inr (nodes, ctx)"
          using inb by (subst parseNodesLoop.simps) (auto simp: token_def Let_def)
        moreover have "stops (remaining ctx)"
          using True inb by (auto simp: stops_def remaining_def token_def
              hd_drop_conv_nth Cons_nth_drop_Suc[symmetric])
        ultimately show ?thesis using self by (simp add: resultAgrees_def)
      next
        case nstop: False
        show ?thesis
        proof (cases "isOpenTagToken token")
          case isopen: True
          have res: "?res = (case parseElementWithDepth source ctx currentDepth maxDepth of
                 Inl e \<Rightarrow> Inl e
               | Inr (element, ctx') \<Rightarrow>
                   parseNodesLoop source ctx' currentDepth maxDepth (nodes @ [element]))"
            using inb nstop isopen
            by (subst parseNodesLoop.simps) (simp add: token_def Let_def)
          have el: "resultAgrees source maxDepth ctx st dmax False
              (parseElementWithDepth source ctx currentDepth maxDepth)"
            using 2(1)[OF inb token_def] nstop isopen len le inb
            by (simp add: token_def)
          show ?thesis
          proof (cases "parseElementWithDepth source ctx currentDepth maxDepth")
            case (Inl e)
            with el res show ?thesis by (simp add: resultAgrees_def)
          next
            case (Inr p)
            obtain element ctx1 where p: "p = (element, ctx1)" by (cases p)
            from el Inr p obtain dmax1 where
              a: "ctx_tokens ctx1 = ctx_tokens ctx" "tagStack ctx1 = tagStack ctx"
                 "dmax \<le> dmax1" "dmax \<le> maxDepth \<longrightarrow> dmax1 \<le> maxDepth"
                 "scanNesting (remaining ctx) st dmax = scanNesting (remaining ctx1) st dmax1"
              by (auto simp: resultAgrees_def successAgrees_def)
            have ih: "resultAgrees source maxDepth ctx1 st dmax1 True
                (parseNodesLoop source ctx1 currentDepth maxDepth (nodes @ [element]))"
              using 2(2)[OF inb token_def _ _ _ Inr p[symmetric]] nstop isopen len le a(3)
              by simp
            have "?res = parseNodesLoop source ctx1 currentDepth maxDepth (nodes @ [element])"
              using res Inr p by simp
            with resultAgrees_compose[OF a ih] show ?thesis by simp
          qed
        next
          case notopen: False
          have istext: "isTextToken token"
            using nstop notopen by (auto intro: token_kind_text)
          define ctx1 where "ctx1 = ctx\<lparr>ctx_position := ctx_position ctx + 1\<rparr>"
          define textNode where
            "textNode = createText (tok_content token) (tok_start token) (tok_end token)"
          have pt: "parseText ctx = Inr (textNode, ctx1)"
            using inb istext by (simp add: parseText_def token_def Let_def ctx1_def textNode_def)
          have res: "?res = parseNodesLoop source ctx1 currentDepth maxDepth (nodes @ [textNode])"
            using inb nstop notopen istext pt
            by (subst parseNodesLoop.simps) (simp add: token_def Let_def)
          have rem: "remaining ctx = token # remaining ctx1"
            unfolding token_def by (rule remaining_Cons[OF inb]) (simp_all add: ctx1_def)
          have sc: "scanNesting (remaining ctx) st dmax = scanNesting (remaining ctx1) st dmax"
            using nstop notopen by (simp add: rem)
          have ih: "resultAgrees source maxDepth ctx1 st dmax True
                (parseNodesLoop source ctx1 currentDepth maxDepth (nodes @ [textNode]))"
            using 2(3)[OF inb token_def _ _ _ _ pt refl] nstop notopen istext len le by simp
          have "resultAgrees source maxDepth ctx st dmax True
                (parseNodesLoop source ctx1 currentDepth maxDepth (nodes @ [textNode]))"
            by (rule resultAgrees_compose[OF _ _ _ _ sc ih]) (simp_all add: ctx1_def)
          with res show ?thesis by simp
        qed
      qed
    qed
  qed
next
  case (3 source ctx currentDepth maxDepth)
  show ?case
  proof (intro allI impI)
    fix st :: "TamlToken list" and dmax :: nat
    assume len: "length st = currentDepth" and le: "currentDepth \<le> dmax"
      and inb: "ctx_position ctx < length (ctx_tokens ctx)"
      and isopen: "isOpenTagToken (ctx_tokens ctx ! ctx_position ctx)"
    let ?res = "parseElementWithDepth source ctx currentDepth maxDepth"
    define openToken where "openToken = ctx_tokens ctx ! ctx_position ctx"
    define ctx1 where "ctx1 = ctx\<lparr>ctx_position := ctx_position ctx + 1,
        tagStack := tagStack ctx @ [(tok_tagName openToken, openToken)]\<rparr>"
    define dmax1 where "dmax1 = max dmax (currentDepth + 1)"
    have ok: "\<not> \<not> (ctx_position ctx < length (ctx_tokens ctx)
                \<and> isOpenTagToken (ctx_tokens ctx ! ctx_position ctx))"
      using inb isopen by simp
    have tk1: "ctx_tokens ctx1 = ctx_tokens ctx" by (simp add: ctx1_def)
    have rem: "remaining ctx = openToken # remaining ctx1"
      unfolding openToken_def by (rule remaining_Cons[OF inb]) (simp_all add: ctx1_def)
    have sc1: "scanNesting (remaining ctx) st dmax =
        scanNesting (remaining ctx1) (openToken # st) dmax1"
      using isopen len by (auto simp: rem openToken_def dmax1_def)
    have ih: "resultAgrees source maxDepth ctx1 (openToken # st) dmax1 True
        (parseNodesWithDepth source ctx1 (currentDepth + 1) maxDepth)"
      using 3[OF ok openToken_def ctx1_def] len le by (simp add: dmax1_def)
    show "resultAgrees source maxDepth ctx st dmax False ?res"
    proof (cases "parseNodesWithDepth source ctx1 (currentDepth + 1) maxDepth")
      case (Inl e)
      then have "?res = Inl e"
        using ok unfolding ctx1_def openToken_def
        by (subst parseElementWithDepth.simps) (simp add: Let_def)
      with ih Inl sc1 tk1 show ?thesis by (simp add: resultAgrees_def)
    next
      case (Inr p)
      obtain children ctx2 where p: "p = (children, ctx2)" by (cases p)
      from ih Inr p obtain dmax2 where
        a: "ctx_tokens ctx2 = ctx_tokens ctx1" "tagStack ctx2 = tagStack ctx1"
           "dmax1 \<le> dmax2" "dmax1 \<le> maxDepth \<longrightarrow> dmax2 \<le> maxDepth"
           "scanNesting (remaining ctx1) (openToken # st) dmax1 =
              scanNesting (remaining ctx2) (openToken # st) dmax2"
        and stop: "stops (remaining ctx2)"
        by (auto simp: resultAgrees_def successAgrees_def)
      have depth: "currentDepth + 1 \<le> maxDepth"
        using Inr by (subst (asm) parseNodesWithDepth.simps) (auto split: if_splits)
      define unclosed where "unclosed = Positioned (UnclosedTagError (tok_tagName openToken)
          (tok_start openToken) (tok_line openToken) (tok_column openToken) source)"
      have res: "?res =
          (if ctx_position ctx2 \<ge> length (ctx_tokens ctx2) then Inl unclosed
           else
             (let closeToken = ctx_tokens ctx2 ! ctx_position ctx2
              in if \<not> isCloseTagToken closeToken then Inl unclosed
                 else if tok_tagName closeToken \<noteq> tok_tagName openToken then
                   Inl (Positioned (MismatchedTagError (tok_tagName openToken)
                          (tok_tagName closeToken) (tok_start closeToken)
                          (tok_line closeToken) (tok_column closeToken) source))
                 else
                   Inr (createElement (tok_tagName openToken) children
                          (tok_start openToken) (tok_end closeToken),
                        ctx2\<lparr>ctx_position := ctx_position ctx2 + 1,
                              tagStack := butlast (tagStack ctx2)\<rparr>)))"
        using ok Inr p unfolding ctx1_def openToken_def unclosed_def
        by (subst parseElementWithDepth.simps) (simp add: Let_def)
      have unclosed_ok: "errorAgrees source maxDepth (ctx_tokens ctx) unclosed
          (Some (openToken # st, dmax2))"
        by (simp add: errorAgrees_def unclosed_def)
      show ?thesis
      proof (cases "ctx_position ctx2 < length (ctx_tokens ctx2)")
        case False
        then have "?res = Inl unclosed" using res by simp
        moreover have "scanNesting (remaining ctx) st dmax = Some (openToken # st, dmax2)"
          using sc1 a(5) remaining_Nil[OF False] by simp
        ultimately show ?thesis using unclosed_ok by (simp add: resultAgrees_def)
      next
        case inb2: True
        define closeToken where "closeToken = ctx_tokens ctx2 ! ctx_position ctx2"
        define ctx3 where "ctx3 = ctx2\<lparr>ctx_position := ctx_position ctx2 + 1,
                              tagStack := butlast (tagStack ctx2)\<rparr>"
        have rem2: "remaining ctx2 = closeToken # remaining ctx3"
          unfolding closeToken_def by (rule remaining_Cons[OF inb2]) (simp_all add: ctx3_def)
        show ?thesis
        proof (cases "isCloseTagToken closeToken")
          case False
          then have "?res = Inl unclosed"
            using res inb2 by (simp add: closeToken_def Let_def)
          moreover have "isEofToken closeToken"
            using stop False by (simp add: stops_def rem2)
          then have "scanNesting (remaining ctx) st dmax = Some (openToken # st, dmax2)"
            using sc1 a(5) by (simp add: rem2)
          ultimately show ?thesis using unclosed_ok by (simp add: resultAgrees_def)
        next
          case isclose: True
          then have nk: "\<not> isEofToken closeToken" "\<not> isOpenTagToken closeToken"
            by (cases closeToken; simp)+
          show ?thesis
          proof (cases "tok_tagName closeToken = tok_tagName openToken")
            case False
            then have "?res = Inl (Positioned (MismatchedTagError (tok_tagName openToken)
                          (tok_tagName closeToken) (tok_start closeToken)
                          (tok_line closeToken) (tok_column closeToken) source))"
              using res inb2 isclose by (simp add: closeToken_def Let_def)
            moreover have "scanNesting (remaining ctx) st dmax = None"
              using sc1 a(5) False isclose nk by (auto simp: rem2)
            moreover have "closeToken \<in> set (ctx_tokens ctx)"
              using inb2 a(1) tk1 by (simp add: closeToken_def)
            ultimately show ?thesis
              using isclose by (auto simp: resultAgrees_def errorAgrees_def list_ex_iff)
          next
            case same: True
            then have r: "?res = Inr (createElement (tok_tagName openToken) children
                          (tok_start openToken) (tok_end closeToken), ctx3)"
              using res inb2 isclose by (simp add: closeToken_def Let_def ctx3_def)
            have sc3: "scanNesting (remaining ctx) st dmax =
                scanNesting (remaining ctx3) st dmax2"
              using sc1 a(5) same isclose nk by (simp add: rem2)
            have "successAgrees maxDepth ctx st dmax ctx3"
              unfolding successAgrees_def
            proof (intro conjI exI[of _ dmax2])
              show "ctx_tokens ctx3 = ctx_tokens ctx"
                using a(1) by (simp add: ctx3_def ctx1_def)
              show "tagStack ctx3 = tagStack ctx"
                using a(2) by (simp add: ctx3_def ctx1_def)
              show "dmax \<le> dmax2" using a(3) by (simp add: dmax1_def)
              show "dmax \<le> maxDepth \<longrightarrow> dmax2 \<le> maxDepth"
                using a(4) depth by (simp add: dmax1_def)
              show "scanNesting (remaining ctx) st dmax =
                scanNesting (remaining ctx3) st dmax2" by (rule sc3)
            qed
            with r show ?thesis by (simp add: resultAgrees_def)
          qed
        qed
      qed
    qed
  qed
qed


lemma scanNesting_stack:
  "scanNesting ts st n = Some (st', n') \<Longrightarrow>
   set st' \<subseteq> set st \<union> {t \<in> set ts. isOpenTagToken t}"
  by (induction ts st n rule: scanNesting.induct)
    (auto split: if_splits list.splits)

lemma scanNesting_stops:
  "stops r \<Longrightarrow> scanNesting r [] n = None \<or> scanNesting r [] n = Some ([], n)"
  by (cases r) (auto simp: stops_def)

lemma parseWithOptions_agrees:
  assumes "tokenize source = Inr toks"
  shows "case parseWithOptions source options of
           Inl e \<Rightarrow> errorAgrees source (opt_maxDepth options) toks e (scanNesting toks [] 0)
         | Inr ast \<Rightarrow>
             (\<exists>cs. ast = DocumentNode cs 0 (length source)) \<and>
             (scanNesting toks [] 0 = None \<or>
              (\<exists>n. n \<le> opt_maxDepth options \<and> scanNesting toks [] 0 = Some ([], n)))"
proof -
  define m where "m = opt_maxDepth options"
  define ctx where "ctx = \<lparr>ctx_tokens = toks, ctx_position = 0, tagStack = []\<rparr>"
  have rem: "remaining ctx = toks" by (simp add: remaining_def ctx_def)
  have ag: "resultAgrees source m ctx [] 0 True (parseNodesWithDepth source ctx 0 m)"
    using parser_agrees_scan(1)[of 0 source m ctx] by simp
  show ?thesis
  proof (cases "parseNodesWithDepth source ctx 0 m")
    case (Inl e)
    then have "parseWithOptions source options = Inl e"
      using assms by (simp add: parseWithOptions_def Let_def ctx_def m_def)
    with ag Inl rem show ?thesis by (simp add: resultAgrees_def m_def ctx_def)
  next
    case (Inr p)
    obtain cs ctx' where p: "p = (cs, ctx')" by (cases p)
    from ag Inr p obtain dmax' where
      a: "tagStack ctx' = tagStack ctx" "0 \<le> m \<longrightarrow> dmax' \<le> m"
         "scanNesting (remaining ctx) [] 0 = scanNesting (remaining ctx') [] dmax'"
      and stop: "stops (remaining ctx')"
      by (auto simp: resultAgrees_def successAgrees_def)
    have "parseWithOptions source options = Inr (DocumentNode cs 0 (length source))"
      using assms Inr p a(1)
      by (simp add: parseWithOptions_def Let_def ctx_def[symmetric] m_def[symmetric]
          createDocument_def) (simp add: ctx_def)
    moreover have "scanNesting toks [] 0 = None \<or>
        (\<exists>n. n \<le> m \<and> scanNesting toks [] 0 = Some ([], n))"
      using scanNesting_stops[OF stop, of dmax'] a(2,3) rem by auto
    ultimately show ?thesis by (simp add: m_def)
  qed
qed

lemma tokenizeTag_error: "tokenizeTag source st = Inl e \<Longrightarrow> isLexicalError e"
  by (auto simp: tokenizeTag_def Let_def isLexicalError_def split: if_splits)

lemma tokenizeLoop_error: "tokenizeLoop source st = Inl e \<Longrightarrow> isLexicalError e"
proof (induction source st rule: tokenizeLoop.induct)
  case (1 source st)
  from 1(2) have inb: "position st < length source"
    by (subst (asm) tokenizeLoop.simps) (auto split: if_splits)
  show ?case
  proof (cases "tokenizeNext source st")
    case (Inl e')
    with 1(2) inb have "e' = e" by (subst (asm) tokenizeLoop.simps) simp
    with Inl inb show ?thesis
      by (auto simp: tokenizeNext_def split: if_splits dest: tokenizeTag_error)
  next
    case (Inr st1)
    with 1(2) inb have "tokenizeLoop source st1 = Inl e"
      by (subst (asm) tokenizeLoop.simps) simp
    with 1(1)[OF inb Inr] show ?thesis by simp
  qed
qed

lemma tokenize_error: "tokenize source = Inl e \<Longrightarrow> isLexicalError e"
  by (auto simp: tokenize_def Let_def split: sum.splits dest: tokenizeLoop_error)

section \<open>The depth guard\<close>

text \<open>
  Claim C5. \<open>parseTaml\<close> succeeds on every well-formed input nested no deeper than
  \<open>maxDepth\<close>, and on every well-formed input nested more deeply it fails with the plain
  error \<open>Maximum nesting depth of maxDepth exceeded\<close>, which is not a \<open>TamlParseError\<close>.
  The default \<open>maxDepth\<close> is 100: with the default options it succeeds on every
  well-formed input nested exactly 100 levels deep and fails in that way on every one
  nested 101 levels deep.
\<close>

theorem parseTaml_depth_guard:
  assumes "nestingDepth source = Some n"
  shows "(n \<le> opt_maxDepth (applyDefaults None om) \<longrightarrow>
           (\<exists>cs. parseTaml source None om = Inr (DocumentNode cs 0 (length source))))
       \<and> (opt_maxDepth (applyDefaults None om) < n \<longrightarrow>
           parseTaml source None om =
             Inl (Plain (MaxDepthExceeded (opt_maxDepth (applyDefaults None om)))))
       \<and> \<not> isTamlParseError (Plain (MaxDepthExceeded (opt_maxDepth (applyDefaults None om))))
       \<and> opt_maxDepth (applyDefaults None None) = 100"
proof -
  from assms obtain toks where t: "tokenize source = Inr toks"
    and sc: "scanNesting toks [] 0 = Some ([], n)"
    by (auto simp: nestingDepth_def split: sum.splits option.splits list.splits)
  define options where "options = applyDefaults None om"
  define m where "m = opt_maxDepth options"
  have ip: "opt_includePositions options"
    by (simp add: options_def applyDefaults_def)
  have pt: "parseTaml source None om = parseWithOptions source options"
    using ip by (auto simp: parseTaml_def Let_def options_def[symmetric] split: sum.splits)
  have d: "opt_maxDepth (applyDefaults None None) = 100"
    by (simp add: applyDefaults_def)
  note ag = parseWithOptions_agrees[OF t, of options]
  have "(n \<le> m \<longrightarrow> (\<exists>cs. parseTaml source None om = Inr (DocumentNode cs 0 (length source))))
       \<and> (m < n \<longrightarrow> parseTaml source None om = Inl (Plain (MaxDepthExceeded m)))"
  proof (cases "parseWithOptions source options")
    case (Inr ast)
    with ag sc show ?thesis unfolding pt m_def by auto
  next
    case (Inl e)
    with ag sc have "errorAgrees source m toks e (Some ([], n))" by (simp add: m_def)
    then have "e = Plain (MaxDepthExceeded m) \<and> m < n"
      by (auto simp: errorAgrees_def split: Thrown.splits PlainError.splits
          TamlParseError.splits)
    with Inl show ?thesis unfolding pt by simp
  qed
  with d show ?thesis unfolding m_def options_def by simp
qed

theorem parseTaml_depth_guard_witness:
  "nestingDepth ''<red>x</red>'' = Some 1 \<and>
   (\<exists>cs. parseTaml ''<red>x</red>'' None None = Inr (DocumentNode cs 0 12)) \<and>
   nestingDepth ''<red><bold>x</bold></red>'' = Some 2 \<and>
   parseTaml ''<red><bold>x</bold></red>'' None (Some 1) = Inl (Plain (MaxDepthExceeded 1))"
proof -
  have h1: "nestingDepth ''<red>x</red>'' = Some 1"
    by code_simp
  have h2: "nestingDepth ''<red><bold>x</bold></red>'' = Some 2"
    by code_simp
  have l: "length ''<red>x</red>'' = 12" by simp
  have d1: "opt_maxDepth (applyDefaults None None) = 100"
    and d2: "opt_maxDepth (applyDefaults None (Some 1)) = 1"
    by (simp_all add: applyDefaults_def)
  from parseTaml_depth_guard[OF h1, of None]
  have "\<exists>cs. parseTaml ''<red>x</red>'' None None = Inr (DocumentNode cs 0 12)"
    unfolding l d1 by simp
  moreover from parseTaml_depth_guard[OF h2, of "Some 1"]
  have "parseTaml ''<red><bold>x</bold></red>'' None (Some 1) = Inl (Plain (MaxDepthExceeded 1))"
    unfolding d2 by simp
  ultimately show ?thesis using h1 h2 by simp
qed

section \<open>Unclosed tags\<close>

text \<open>
  Claim C10. Whenever \<open>parseTaml\<close> fails with an \<open>UnclosedTagError\<close>, the source has an
  innermost unclosed tag, an open tag token; the error bears its tag name, and the
  error's position, line and column are the start, line and column of that token: the
  offset of its \<open><\<close>, which lies before the end of the input, and the line and column
  \<open>calculatePosition\<close> gives for that offset.
\<close>

theorem parseTaml_unclosed_is_innermost:
  assumes "parseTaml source i om = Inl (Positioned (UnclosedTagError name pos line col src))"
  shows "\<exists>tok. innermostUnclosed source = Some tok \<and> isOpenTagToken tok \<and>
           name = tok_tagName tok \<and> pos = tok_start tok \<and>
           line = tok_line tok \<and> col = tok_column tok \<and>
           (line, col) = calculatePosition source pos \<and>
           charAt source pos = Some CHR ''<'' \<and> pos < length source \<and> src = source"
proof -
  define options where "options = applyDefaults i om"
  from assms have pw: "parseWithOptions source options =
      Inl (Positioned (UnclosedTagError name pos line col src))"
    by (auto simp: parseTaml_def Let_def options_def split: sum.splits if_splits)
  then obtain toks where t: "tokenize source = Inr toks"
    by (auto simp: parseWithOptions_def isLexicalError_def split: sum.splits
        dest!: tokenize_error)
  from parseWithOptions_agrees[OF t, of options] pw
  have "errorAgrees source (opt_maxDepth options) toks
      (Positioned (UnclosedTagError name pos line col src)) (scanNesting toks [] 0)"
    by simp
  then obtain tok st n where sc: "scanNesting toks [] 0 = Some (tok # st, n)"
    and f: "src = source" "name = tok_tagName tok" "pos = tok_start tok"
      "line = tok_line tok" "col = tok_column tok"
    by (auto simp: errorAgrees_def split: option.splits list.splits)
  have iu: "innermostUnclosed source = Some tok"
    using t sc by (simp add: innermostUnclosed_def)
  from scanNesting_stack[OF sc] have mem: "tok \<in> set toks" and op: "isOpenTagToken tok"
    by auto
  from tokenize_shape[OF t] obtain body where
    b: "toks = body @ [EofToken [] (length source) (length source)
            (fst (calculatePosition source (length source)))
            (snd (calculatePosition source (length source)))]"
    and ok: "list_all (tokenOk source) body" by blast
  from mem op b have "tok \<in> set body" by auto
  with ok have tk: "tokenOk source tok" by (simp add: list_all_iff)
  have nt: "\<not> isTextToken tok" using op by (cases tok) auto
  from tk nt have "(line, col) = calculatePosition source pos"
    and "charAt source pos = Some CHR ''<''" and "pos < length source"
    using f by (auto simp: tokenOk_def)
  with iu op f show ?thesis by blast
qed

theorem parseTaml_unclosed_is_innermost_witness:
  "parseTaml ''<red><bold>x'' None None =
     Inl (Positioned (UnclosedTagError ''bold'' 5 1 6 ''<red><bold>x'')) \<and>
   innermostUnclosed ''<red><bold>x'' = Some (OpenTagToken ''bold'' ''<bold>'' 5 11 1 6) \<and>
   (1, 6) = calculatePosition ''<red><bold>x'' 5 \<and>
   charAt ''<red><bold>x'' 5 = Some CHR ''<''"
proof -
  have h: "parseTaml ''<red><bold>x'' None None =
     Inl (Positioned (UnclosedTagError ''bold'' 5 1 6 ''<red><bold>x''))"
    by code_simp
  have u: "innermostUnclosed ''<red><bold>x'' = Some (OpenTagToken ''bold'' ''<bold>'' 5 11 1 6)"
    by code_simp
  from parseTaml_unclosed_is_innermost[OF h] h u show ?thesis by auto
qed

section \<open>The validator on concrete token sequences\<close>

fun isUnclosedTagError :: "Thrown \<Rightarrow> bool" where
  "isUnclosedTagError (Positioned (UnclosedTagError n p l c s)) = True"
| "isUnclosedTagError _ = False"

text \<open>
  Claim C1, as amended. Running \<open>validateTokens\<close> on the token sequence of
  \<open><red>text</blue>\<close> returns \<open>valid = false\<close> with exactly two errors: the
  \<open>MismatchedTagError\<close> with expected \<open>red\<close> and actual \<open>blue\<close>, followed by the
  \<open>UnclosedTagError\<close> for \<open>red\<close> of the check at the end of the stream, the mismatch
  having left \<open>red\<close> on the stack.
\<close>

theorem validateTokens_mismatch_also_reports_unclosed:
  "tokenize ''<red>text</blue>'' =
     Inr [OpenTagToken ''red'' ''<red>'' 0 5 1 1, TextToken ''text'' ''text'' 5 9 1 6,
          CloseTagToken ''blue'' ''</blue>'' 9 16 1 10, EofToken [] 16 16 1 17]
   \<and> validateTokens ''<red>text</blue>''
       [OpenTagToken ''red'' ''<red>'' 0 5 1 1, TextToken ''text'' ''text'' 5 9 1 6,
        CloseTagToken ''blue'' ''</blue>'' 9 16 1 10, EofToken [] 16 16 1 17] =
     \<lparr>valid = False,
      result_errors =
        [Positioned (MismatchedTagError ''red'' ''blue'' 9 1 10 ''<red>text</blue>''),
         Positioned (UnclosedTagError ''red'' 0 1 1 ''<red>text</blue>'')]\<rparr>"
  by code_simp

text \<open>
  The claim C1 as stated, exactly one error and no \<open>UnclosedTagError\<close>, fails on that
  token sequence: the list of errors has length 2 and holds an \<open>UnclosedTagError\<close>.
\<close>

theorem validateTokens_mismatch_counterexample:
  "length (result_errors (validateTokens ''<red>text</blue>''
       [OpenTagToken ''red'' ''<red>'' 0 5 1 1, TextToken ''text'' ''text'' 5 9 1 6,
        CloseTagToken ''blue'' ''</blue>'' 9 16 1 10, EofToken [] 16 16 1 17])) = 2
   \<and> list_ex isUnclosedTagError (result_errors (validateTokens ''<red>text</blue>''
       [OpenTagToken ''red'' ''<red>'' 0 5 1 1, TextToken ''text'' ''text'' 5 9 1 6,
        CloseTagToken ''blue'' ''</blue>'' 9 16 1 10, EofToken [] 16 16 1 17]))"
  by code_simp

text \<open>
  Claim C2. At the end of the stream every tag left on the stack is claimed to
  contribute its own \<open>UnclosedTagError\<close>. On the tokens of \<open><red><bold>x\<close> two tags are
  left on the stack, and the code reports the last one only.
\<close>

theorem validateTokens_reports_only_innermost_unclosed:
  "tokenize ''<red><bold>x'' =
     Inr [OpenTagToken ''red'' ''<red>'' 0 5 1 1, OpenTagToken ''bold'' ''<bold>'' 5 11 1 6,
          TextToken ''x'' ''x'' 11 12 1 12, EofToken [] 12 12 1 13]
   \<and> validateTokens ''<red><bold>x''
       [OpenTagToken ''red'' ''<red>'' 0 5 1 1, OpenTagToken ''bold'' ''<bold>'' 5 11 1 6,
        TextToken ''x'' ''x'' 11 12 1 12, EofToken [] 12 12 1 13] =
     \<lparr>valid = False,
      result_errors = [Positioned (UnclosedTagError ''bold'' 5 1 6 ''<red><bold>x'')]\<rparr>"
  by code_simp

section \<open>Error positions\<close>

text \<open>
  An error is positioned consistently when its line and column are those
  \<open>calculatePosition\<close> gives for its position.
\<close>

definition positionedConsistently :: "string \<Rightarrow> TamlParseError \<Rightarrow> bool" where
  "positionedConsistently source e =
     ((err_line e, err_column e) = calculatePosition source (err_position e))"

fun isUnexpectedEndOfInput :: "TamlParseError \<Rightarrow> bool" where
  "isUnexpectedEndOfInput (UnexpectedEndOfInputError p l c s x) = True"
| "isUnexpectedEndOfInput _ = False"

text \<open>
  Claim C4. The line and column of every error of \<open>tokenize\<close> and \<open>parse\<close> are claimed to
  be \<open>calculatePosition\<close> of the error's position. On \<open><red\<close> the
  \<open>UnexpectedEndOfInputError\<close> carries the position 4 where the input ended, together
  with line 1 and column 1 of the opening \<open><\<close>, while position 4 is line 1, column 5.
\<close>

theorem tokenize_unterminated_tag_position:
  "tokenize ''<red'' =
     Inl (Positioned (UnexpectedEndOfInputError 4 1 1 ''<red'' (Some ''parsing tag'')))
   \<and> parseTaml ''<red'' None None =
     Inl (Positioned (UnexpectedEndOfInputError 4 1 1 ''<red'' (Some ''parsing tag'')))
   \<and> \<not> positionedConsistently ''<red''
         (UnexpectedEndOfInputError 4 1 1 ''<red'' (Some ''parsing tag''))
   \<and> err_position (UnexpectedEndOfInputError 4 1 1 ''<red'' (Some ''parsing tag'')) = 4
   \<and> err_line (UnexpectedEndOfInputError 4 1 1 ''<red'' (Some ''parsing tag'')) = 1
   \<and> err_column (UnexpectedEndOfInputError 4 1 1 ''<red'' (Some ''parsing tag'')) = 1
   \<and> calculatePosition ''<red'' 4 = (1, 5)"
  by code_simp

text \<open>
  Every other positioned error of \<open>tokenize\<close> and of \<open>parseTaml\<close> is positioned
  consistently: the tokenizer's other errors carry the start of the tag with the line
  and column computed there, and the parser's errors carry the start, line and column
  of a token.
\<close>

lemma tokenizeTag_error_position:
  assumes "tokenizeTag source st = Inl (Positioned e)" "\<not> isUnexpectedEndOfInput e"
  shows "positionedConsistently source e"
  using assms
  by (auto simp: tokenizeTag_def Let_def positionedConsistently_def split: if_splits)

lemma tokenizeLoop_error_position:
  "tokenizeLoop source st = Inl (Positioned e) \<Longrightarrow> \<not> isUnexpectedEndOfInput e \<Longrightarrow>
   positionedConsistently source e"
proof (induction source st rule: tokenizeLoop.induct)
  case (1 source st)
  from 1(2) have inb: "position st < length source"
    by (subst (asm) tokenizeLoop.simps) (auto split: if_splits)
  show ?case
  proof (cases "tokenizeNext source st")
    case (Inl e')
    with 1(2) inb have "e' = Positioned e" by (subst (asm) tokenizeLoop.simps) simp
    with Inl inb have "tokenizeTag source st = Inl (Positioned e)"
      by (auto simp: tokenizeNext_def split: if_splits)
    then show ?thesis using 1(3) by (rule tokenizeTag_error_position)
  next
    case (Inr st1)
    with 1(2) inb have "tokenizeLoop source st1 = Inl (Positioned e)"
      by (subst (asm) tokenizeLoop.simps) simp
    with 1(1)[OF inb Inr] 1(3) show ?thesis by simp
  qed
qed

lemma tokenize_error_position:
  "tokenize source = Inl (Positioned e) \<Longrightarrow> \<not> isUnexpectedEndOfInput e \<Longrightarrow>
   positionedConsistently source e"
  by (auto simp: tokenize_def Let_def split: sum.splits dest: tokenizeLoop_error_position)

lemma parseTaml_error_position:
  assumes "parseTaml source i om = Inl (Positioned e)" "\<not> isUnexpectedEndOfInput e"
  shows "positionedConsistently source e"
proof -
  define options where "options = applyDefaults i om"
  from assms(1) have pw: "parseWithOptions source options = Inl (Positioned e)"
    by (auto simp: parseTaml_def Let_def options_def split: sum.splits if_splits)
  show ?thesis
  proof (cases "tokenize source")
    case (Inl e')
    with pw have "e' = Positioned e" by (simp add: parseWithOptions_def)
    with Inl assms(2) show ?thesis by (auto dest: tokenize_error_position)
  next
    case (Inr toks)
    from tokenize_shape[OF Inr] obtain body where
      b: "toks = body @ [EofToken [] (length source) (length source)
            (fst (calculatePosition source (length source)))
            (snd (calculatePosition source (length source)))]"
      and ok: "list_all (tokenOk source) body" by blast
    have tagtok: "(tok_line t, tok_column t) = calculatePosition source (tok_start t)"
      if "t \<in> set toks" for t
      using that b ok by (auto simp: list_all_iff tokenOk_def)
    from parseWithOptions_agrees[OF Inr, of options] pw
    have ea: "errorAgrees source (opt_maxDepth options) toks (Positioned e)
        (scanNesting toks [] 0)" by simp
    show ?thesis
    proof (cases e)
      case (UnclosedTagError name pos line col s)
      with ea obtain tok st n where sc: "scanNesting toks [] 0 = Some (tok # st, n)"
        and f: "pos = tok_start tok" "line = tok_line tok" "col = tok_column tok"
        by (auto simp: errorAgrees_def split: option.splits list.splits)
      from scanNesting_stack[OF sc] have "tok \<in> set toks" by auto
      from tagtok[OF this] f UnclosedTagError show ?thesis
        by (simp add: positionedConsistently_def)
    next
      case (MismatchedTagError ex ac pos line col s)
      with ea obtain tok where "tok \<in> set toks"
        and f: "pos = tok_start tok" "line = tok_line tok" "col = tok_column tok"
        by (auto simp: errorAgrees_def list_ex_iff)
      from tagtok[OF this(1)] f MismatchedTagError show ?thesis
        by (simp add: positionedConsistently_def)
    qed (use ea in \<open>auto simp: errorAgrees_def\<close>)
  qed
qed

section \<open>Parsing a single element\<close>

text \<open>
  Claim C8. \<open>parse("<red>Hello</red>")\<close> is a document spanning 0 to 16 whose only child is
  an element \<open>red\<close> spanning 0 to 16, whose only child is the text \<open>Hello\<close> spanning 5 to 10.
\<close>

theorem parseTaml_red_Hello:
  "parseTaml ''<red>Hello</red>'' None None =
     Inr (DocumentNode [ElementNode ''red'' [TextNode ''Hello'' 5 10] 0 16] 0 16)"
  by code_simp

end
